theory Spec2Isabelle
  imports Complex_Main "HOL-Library.Log_Nat" "HOL-Library.Word"
begin

section \<open>Python values used by the application\<close>

text \<open>
  The application is one Python module (\<^verbatim>\<open>app.py\<close>). Its pure parts are embedded here:
  the synthetic dataset generator \<^verbatim>\<open>generate_dataset\<close>, the keyword sentiment
  percentage of \<^verbatim>\<open>domain_feedback_analysis\<close>, the word-frequency extraction of
  \<^verbatim>\<open>feedback_analysis\<close> and the sepia branch of the image filter.

  Exceptions are values: a computation that may raise returns \<open>py_error + 'a\<close>.
\<close>

datatype py_error = IndexError | ValueError | ZeroDivisionError

definition py_bind :: "py_error + 'a \<Rightarrow> ('a \<Rightarrow> py_error + 'b) \<Rightarrow> py_error + 'b" where
  "py_bind m f = (case m of Inl e \<Rightarrow> Inl e | Inr x \<Rightarrow> f x)"

subsection \<open>Floating point\<close>

text \<open>
  A Python \<^verbatim>\<open>float\<close> is an IEEE-754 binary64 number. A finite float is modelled by the
  rational number it denotes, and every float operation by the exact operation followed by
  \<open>fl\<close>, rounding to the nearest number with a 53-bit significand, ties to even. The
  exponent range is not bounded in the model: all values computed by the application lie
  far inside the normal range of binary64.
\<close>

definition round_half_even :: "rat \<Rightarrow> int" where
  "round_half_even x =
     (let f = \<lfloor>x\<rfloor>; d = x - of_int f
      in if d < 1 / 2 then f else if 1 / 2 < d then f + 1 else if even f then f else f + 1)"

definition float_exponent :: "rat \<Rightarrow> int" where
  "float_exponent x =
     (let (p, q) = quotient_of x; e0 = bitlen p - bitlen q
      in if 2 powi e0 \<le> x then e0 else e0 - 1)"

definition fl :: "rat \<Rightarrow> rat" where
  "fl x =
     (if x = 0 then 0
      else let a = \<bar>x\<bar>; ulp = 2 powi (float_exponent a - 52)
           in sgn x * of_int (round_half_even (a / ulp)) * ulp)"

definition fadd :: "rat \<Rightarrow> rat \<Rightarrow> rat" where
  "fadd a b = fl (a + b)"

definition fmul :: "rat \<Rightarrow> rat \<Rightarrow> rat" where
  "fmul a b = fl (a * b)"

definition fdiv :: "rat \<Rightarrow> rat \<Rightarrow> rat" where
  "fdiv a b = fl (a / b)"

text \<open>\<^verbatim>\<open>a / b\<close> on numbers: ZeroDivisionError when the divisor is zero.\<close>

definition py_truediv :: "rat \<Rightarrow> rat \<Rightarrow> py_error + rat" where
  "py_truediv a b = (if b = 0 then Inl ZeroDivisionError else Inr (fdiv a b))"

text \<open>\<^verbatim>\<open>int(x)\<close> on a float truncates toward zero.\<close>

definition py_int :: "rat \<Rightarrow> int" where
  "py_int x = (if 0 \<le> x then \<lfloor>x\<rfloor> else \<lceil>x\<rceil>)"

text \<open>
  \<^verbatim>\<open>round(x, 1)\<close> rounds the exact value of the float to one decimal digit, ties to even,
  and returns the float nearest to that decimal.
\<close>

definition py_round1 :: "rat \<Rightarrow> rat" where
  "py_round1 x = fl (of_int (round_half_even (x * 10)) / 10)"

subsection \<open>The \<^verbatim>\<open>random\<close> module\<close>

text \<open>
  The Mersenne Twister behind Python's \<^verbatim>\<open>random\<close> module is library code; the generator
  is a parameter of the model. \<open>rng_seed\<close> is \<^verbatim>\<open>random.seed\<close> (the new state depends on
  the seed only), \<open>rng_random\<close> is \<^verbatim>\<open>random.random()\<close> and \<open>rng_randbelow n\<close> is the
  \<^verbatim>\<open>_randbelow(n)\<close> on which \<^verbatim>\<open>choice\<close> and \<^verbatim>\<open>randint\<close> are built. Each draw returns
  its value and the next state.
\<close>

record 'g random_module =
  rng_seed :: "int \<Rightarrow> 'g"
  rng_random :: "'g \<Rightarrow> rat \<times> 'g"
  rng_randbelow :: "nat \<Rightarrow> 'g \<Rightarrow> nat \<times> 'g"

text \<open>
  The library's contract: \<^verbatim>\<open>random()\<close> lies in \<open>[0, 1)\<close> and \<^verbatim>\<open>_randbelow(n)\<close> lies in
  \<open>[0, n)\<close> for positive \<open>n\<close>.
\<close>

definition prng_ok :: "'g random_module \<Rightarrow> bool" where
  "prng_ok R \<longleftrightarrow>
     (\<forall>g. 0 \<le> fst (rng_random R g) \<and> fst (rng_random R g) < 1) \<and>
     (\<forall>n g. 0 < n \<longrightarrow> fst (rng_randbelow R n g) < n)"

text \<open>
  The interpreter state the generator touches: the state of the global \<^verbatim>\<open>random\<close>
  generator, and the seed last given to NumPy's global generator (from which the
  application never draws).
\<close>

record 'g py_state =
  random_state :: 'g
  np_random_seed :: "int option"

text \<open>\<^verbatim>\<open>random.choice(seq)\<close>: \<^verbatim>\<open>seq[_randbelow(len(seq))]\<close>, IndexError on an empty sequence.\<close>

definition choice :: "'g random_module \<Rightarrow> 'a list \<Rightarrow> 'g \<Rightarrow> py_error + ('a \<times> 'g)" where
  "choice R seq g =
     (if seq = [] then Inl IndexError
      else let (k, g') = rng_randbelow R (length seq) g
           in if k < length seq then Inr (seq ! k, g') else Inl IndexError)"

text \<open>\<^verbatim>\<open>random.randint(a, b)\<close> is \<^verbatim>\<open>randrange(a, b + 1)\<close>: ValueError on an empty range.\<close>

definition randint :: "'g random_module \<Rightarrow> int \<Rightarrow> int \<Rightarrow> 'g \<Rightarrow> py_error + (int \<times> 'g)" where
  "randint R a b g =
     (let width = b + 1 - a
      in if 0 < width
         then (let (k, g') = rng_randbelow R (nat width) g in Inr (a + int k, g'))
         else Inl ValueError)"

text \<open>\<^verbatim>\<open>random.uniform(a, b)\<close> is \<^verbatim>\<open>a + (b - a) * random()\<close>.\<close>

definition uniform :: "'g random_module \<Rightarrow> rat \<Rightarrow> rat \<Rightarrow> 'g \<Rightarrow> rat \<times> 'g" where
  "uniform R a b g = (let (u, g') = rng_random R g in (fadd a (fmul (b - a) u), g'))"

text \<open>
  \<^verbatim>\<open>random.choices(population, weights)[0]\<close>: the running sums of the weights, one draw
  scaled by their total, and a right bisection among all sums but the last.
\<close>

fun accumulate_from :: "rat \<Rightarrow> rat list \<Rightarrow> rat list" where
  "accumulate_from acc [] = []"
| "accumulate_from acc (w # ws) = fadd acc w # accumulate_from (fadd acc w) ws"

definition accumulate :: "rat list \<Rightarrow> rat list" where
  "accumulate ws = (case ws of [] \<Rightarrow> [] | w # ws' \<Rightarrow> w # accumulate_from w ws')"

function bisect_right :: "rat list \<Rightarrow> rat \<Rightarrow> nat \<Rightarrow> nat \<Rightarrow> nat" where
  "bisect_right a x lo hi =
     (if lo < hi
      then (let mid = (lo + hi) div 2
            in if x < a ! mid then bisect_right a x lo mid else bisect_right a x (mid + 1) hi)
      else lo)"
  by pat_completeness auto
termination
  by (relation "measure (\<lambda>(a, x, lo, hi). hi - lo)") auto

declare bisect_right.simps [simp del]

definition choices1 ::
  "'g random_module \<Rightarrow> 'a list \<Rightarrow> rat list \<Rightarrow> 'g \<Rightarrow> py_error + ('a \<times> 'g)" where
  "choices1 R population weights g =
     (let n = length population; cum_weights = accumulate weights
      in if length cum_weights \<noteq> n then Inl ValueError
         else if n = 0 then Inl IndexError
         else let total = fadd (last cum_weights) 0
              in if total \<le> 0 then Inl ValueError
                 else let (u, g') = rng_random R g;
                          k = bisect_right cum_weights (fmul u total) 0 (n - 1)
                      in if k < n then Inr (population ! k, g') else Inl IndexError)"

subsection \<open>Dates and times\<close>

text \<open>
  Every \<^verbatim>\<open>datetime\<close> the generator builds lies in March 2023, so a \<^verbatim>\<open>datetime\<close> is
  modelled by its distance in microseconds from the event epoch 2023-03-15 00:00:00, and a
  \<^verbatim>\<open>timedelta\<close> by its length in microseconds.
\<close>

type_synonym datetime = int
type_synonym timedelta = int

definition us_per_second :: int where
  "us_per_second = 1000000"

definition us_per_day :: int where
  "us_per_day = 86400000000"

text \<open>\<^verbatim>\<open>datetime(2023, 3, d, hh, mm, ss)\<close>: ValueError when a field is out of range.\<close>

definition datetime_2023_3 :: "int \<Rightarrow> int \<Rightarrow> int \<Rightarrow> int \<Rightarrow> py_error + datetime" where
  "datetime_2023_3 d hh mm ss =
     (if 1 \<le> d \<and> d \<le> 31 \<and> 0 \<le> hh \<and> hh \<le> 23 \<and> 0 \<le> mm \<and> mm \<le> 59 \<and> 0 \<le> ss \<and> ss \<le> 59
      then Inr ((d - 15) * us_per_day + (hh * 3600 + mm * 60 + ss) * us_per_second)
      else Inl ValueError)"

text \<open>\<^verbatim>\<open>delta.days\<close> of a normalised \<^verbatim>\<open>timedelta\<close>.\<close>

definition timedelta_days :: "timedelta \<Rightarrow> int" where
  "timedelta_days delta = delta div us_per_day"

text \<open>
  \<^verbatim>\<open>timedelta(days=d, seconds=s)\<close> with float arguments. CPython adds the whole part of
  each argument, scaled to microseconds, to an integer sum; the fractional part is scaled
  in floating point, its whole microseconds go to the sum and the rest to a float
  leftover (seconds first, then days). The leftover is rounded so that the total is the
  nearest whole microsecond, ties to even.
\<close>

definition accum :: "int \<times> rat \<Rightarrow> rat \<Rightarrow> int \<Rightarrow> int \<times> rat" where
  "accum acc num factor =
     (let (sofar, leftover) = acc;
          intpart = py_int num;
          fracpart = num - of_int intpart;
          s = sofar + intpart * factor
      in if fracpart = 0 then (s, leftover)
         else let dnum = fmul (of_int factor) fracpart;
                  ip = py_int dnum
              in (s + ip, fadd leftover (dnum - of_int ip)))"

definition timedelta_of :: "rat \<Rightarrow> rat \<Rightarrow> timedelta" where
  "timedelta_of days seconds =
     (let (x, leftover) = accum (accum (0, 0) seconds us_per_second) days us_per_day
      in round_half_even (of_int x + leftover))"

subsection \<open>Formatting\<close>

text \<open>The decimal digits of a natural number, and \<^verbatim>\<open>f"{i:03d}"\<close>.\<close>

fun digits :: "nat \<Rightarrow> string" where
  "digits n =
     (if n < 10 then [char_of (48 + n)] else digits (n div 10) @ [char_of (48 + n mod 10)])"

declare digits.simps [simp del]

definition zero_pad :: "nat \<Rightarrow> string \<Rightarrow> string" where
  "zero_pad width s = replicate (width - length s) CHR ''0'' @ s"

definition format_03d :: "int \<Rightarrow> string" where
  "format_03d i =
     (if i < 0 then CHR ''-'' # zero_pad 2 (digits (nat (- i))) else zero_pad 3 (digits (nat i)))"

text \<open>
  \<^verbatim>\<open>template.format(domain=domain)\<close> for the feedback templates, whose only replacement
  field is \<^verbatim>\<open>{domain}\<close>.
\<close>

fun format_domain :: "string \<Rightarrow> string \<Rightarrow> string" where
  "format_domain [] d = []"
| "format_domain (c # cs) d =
     (if take 8 (c # cs) = ''{domain}'' then d @ format_domain (drop 7 cs) d
      else c # format_domain cs d)"

section \<open>The dataset generator\<close>

text \<open>One row of the table: the dictionary appended in each iteration of the loop.\<close>

record participant =
  Participant_ID :: string
  Name :: string
  Age :: int
  Gender :: string
  College :: string
  State :: string
  Domain :: string
  Day :: int
  Registration_Time :: datetime
  Time_Spent :: rat
  Project_Completion :: int
  Feedback :: string

definition first_names :: "string list" where
  "first_names =
     [''James'', ''Mary'', ''John'', ''Patricia'', ''Robert'', ''Jennifer'', ''Michael'',
      ''Linda'', ''William'', ''Elizabeth'', ''David'', ''Susan'', ''Richard'', ''Jessica'',
      ''Joseph'', ''Sarah'', ''Thomas'', ''Karen'', ''Charles'', ''Nancy'', ''Christopher'',
      ''Lisa'', ''Daniel'', ''Margaret'', ''Matthew'', ''Betty'', ''Anthony'', ''Sandra'',
      ''Donald'', ''Ashley'', ''Mark'', ''Dorothy'', ''Paul'', ''Kimberly'', ''Steven'',
      ''Emily'', ''Andrew'', ''Donna'', ''Kenneth'', ''Michelle'', ''Joshua'', ''Carol'',
      ''Kevin'', ''Amanda'', ''Brian'', ''Melissa'', ''George'', ''Deborah'', ''Edward'',
      ''Stephanie'', ''Ronald'', ''Rebecca'', ''Timothy'', ''Laura'', ''Jason'', ''Helen'',
      ''Jeffrey'', ''Sharon'', ''Ryan'', ''Cynthia'', ''Rajesh'', ''Priya'', ''Sanjay'',
      ''Neha'', ''Vikram'', ''Ananya'', ''Arun'', ''Kavita'', ''Amit'', ''Deepika'']"

definition last_names :: "string list" where
  "last_names =
     [''Smith'', ''Johnson'', ''Williams'', ''Brown'', ''Jones'', ''Garcia'', ''Miller'',
      ''Davis'', ''Rodriguez'', ''Martinez'', ''Hernandez'', ''Lopez'', ''Gonzalez'',
      ''Wilson'', ''Anderson'', ''Thomas'', ''Taylor'', ''Moore'', ''Jackson'', ''Martin'',
      ''Lee'', ''Perez'', ''Thompson'', ''White'', ''Harris'', ''Sanchez'', ''Clark'',
      ''Ramirez'', ''Lewis'', ''Robinson'', ''Walker'', ''Young'', ''Allen'', ''King'',
      ''Wright'', ''Scott'', ''Torres'', ''Nguyen'', ''Hill'', ''Flores'', ''Patel'',
      ''Sharma'', ''Singh'', ''Kumar'', ''Shah'', ''Gupta'', ''Verma'', ''Joshi'',
      ''Malhotra'', ''Chopra'']"

definition colleges :: "string list" where
  "colleges =
     [''IIT Bombay'', ''IIT Delhi'', ''IIT Madras'', ''IIT Kanpur'', ''IIT Kharagpur'',
      ''BITS Pilani'', ''BITS Hyderabad'', ''BITS Goa'', ''NIT Trichy'', ''NIT Warangal'',
      ''NIT Surathkal'', ''Delhi Technological University'', ''VIT Vellore'',
      ''IIIT Hyderabad'', ''Manipal Institute of Technology'', ''SRM University'',
      ''Amrita University'', ''Thapar University'', ''College of Engineering Pune'',
      ''PES University'', ''SSN College of Engineering'', ''RV College of Engineering'',
      ''BMS College of Engineering'', ''MS Ramaiah Institute of Technology'',
      ''Jadavpur University'', ''Anna University'', ''KIIT University'',
      ''LNM Institute of Technology'', ''Chandigarh University'', ''Amity University'',
      ''Lovely Professional University'', ''Shiv Nadar University'']"

definition positive_feedback :: "string list" where
  "positive_feedback =
     [''I loved the {domain} hackathon! The mentors were very helpful.'',
      ''Great experience in the {domain} event. Would definitely participate again!'',
      ''The {domain} challenge was tough but rewarding. Learned a lot!'',
      ''Amazing organization and support at the {domain} track!'',
      ''Very insightful {domain} hackathon. Made great connections!'',
      ''Thoroughly enjoyed working on {domain} projects. The workshops were excellent!'',
      ''Well-structured {domain} challenges. Got valuable industry exposure.'',
      ''The {domain} event was eye-opening! Can't wait for the next one.'',
      ''Gained practical knowledge about {domain}. Very beneficial for my career.'',
      ''Excellent facilities and resources for the {domain} hackathon!'']"

definition neutral_feedback :: "string list" where
  "neutral_feedback =
     [''The {domain} hackathon was okay. Some aspects could be improved.'',
      ''Average experience at the {domain} event. Nothing special.'',
      ''The {domain} track had some good and bad moments.'',
      ''Decent organization of the {domain} hackathon. Expected more mentorship.'',
      ''The {domain} challenge was moderately difficult. Internet connection was spotty.'',
      ''Food could be better at the {domain} event, but overall it was fine.'',
      ''The {domain} workshops were informative but too short.'',
      ''Mixed feelings about the {domain} track. Some judges seemed biased.'',
      ''The {domain} hackathon schedule was too tight. Barely had time to complete.'',
      ''Moderate learning experience in {domain}. Not sure if I'll participate again.'']"

definition negative_feedback :: "string list" where
  "negative_feedback =
     [''The {domain} hackathon was disappointing. Poor organization.'',
      ''Not enough guidance in the {domain} track. Felt lost most of the time.'',
      ''Too many technical issues during the {domain} challenge.'',
      ''The {domain} event was overcrowded and noisy. Couldn't focus.'',
      ''Unclear instructions for the {domain} hackathon. Very frustrating.'',
      ''The {domain} mentors were rarely available when needed.'',
      ''The {domain} track was too advanced for beginners. More tutorials needed.'',
      ''Poor facilities at the {domain} event. No proper rest areas.'',
      ''The {domain} hackathon was exhausting with minimal benefits.'',
      ''Didn't learn much from the {domain} workshops. Too basic content.'']"

definition domain_keywords :: "(string \<times> string list) list" where
  "domain_keywords =
     [(''Web Development'',
        [''HTML'', ''CSS'', ''JavaScript'', ''React'', ''frontend'', ''backend'', ''API'',
         ''responsive'']),
      (''Mobile App Development'',
        [''Android'', ''iOS'', ''Flutter'', ''React Native'', ''UI/UX'', ''mobile'', ''app'']),
      (''AI/ML'',
        [''machine learning'', ''neural networks'', ''algorithms'', ''data'', ''models'',
         ''tensorflow'', ''pytorch'']),
      (''Blockchain'',
        [''crypto'', ''smart contracts'', ''decentralized'', ''ethereum'', ''tokens'', ''web3'',
         ''ledger'']),
      (''IoT'',
        [''sensors'', ''devices'', ''connectivity'', ''embedded'', ''Arduino'',
         ''Raspberry Pi'', ''automation'']),
      (''Cybersecurity'',
        [''security'', ''encryption'', ''vulnerability'', ''firewall'', ''protection'',
         ''hacking'', ''privacy'']),
      (''Game Development'',
        [''Unity'', ''Unreal'', ''gameplay'', ''graphics'', ''mechanics'', ''levels'',
         ''characters'']),
      (''Data Science'',
        [''visualization'', ''analytics'', ''big data'', ''pandas'', ''prediction'',
         ''statistics'', ''insights''])]"


text \<open>Lines 304 to 309: a random instant between two dates.\<close>

definition random_date_time ::
  "'g random_module \<Rightarrow> datetime \<Rightarrow> datetime \<Rightarrow> 'g \<Rightarrow> datetime \<times> 'g" where
  "random_date_time R start_date end_date g =
     (let delta = end_date - start_date;
          (u1, g1) = rng_random R g;
          random_days = fmul u1 (of_int (timedelta_days delta));
          (u2, g2) = rng_random R g1;
          random_seconds = fmul u2 86400
      in (start_date + timedelta_of random_days random_seconds, g2))"

text \<open>Lines 325 to 327: the registration time of a participant of day \<open>day\<close>.\<close>

definition registration_time_of ::
  "'g random_module \<Rightarrow> int \<Rightarrow> 'g \<Rightarrow> py_error + (datetime \<times> 'g)" where
  "registration_time_of R day g =
     py_bind (datetime_2023_3 15 0 0 0) (\<lambda>start_date.
     py_bind (datetime_2023_3 (15 + day - 1) 23 59 59) (\<lambda>end_date.
     Inr (random_date_time R start_date end_date g)))"

text \<open>Lines 337 to 359: the feedback sentence for a sentiment label and a domain.\<close>

definition feedback_of ::
  "'g random_module \<Rightarrow> string \<Rightarrow> string \<Rightarrow> 'g \<Rightarrow> py_error + (string \<times> 'g)" where
  "feedback_of R sentiment domain g =
     py_bind
       (choice R
          (if sentiment = ''positive'' then positive_feedback
           else if sentiment = ''neutral'' then neutral_feedback
           else negative_feedback) g) (\<lambda>(template, g1).
     let feedback = format_domain template domain
     in case map_of domain_keywords domain of
          None \<Rightarrow> Inr (feedback, g1)
        | Some keywords \<Rightarrow>
            py_bind (choice R keywords g1) (\<lambda>(keyword, g2).
            Inr (feedback @ '' The '' @ keyword @ '' component was particularly interesting.'',
                 g2)))"

text \<open>Line 362: the project completion percentage for a sentiment label.\<close>

definition project_completion_of ::
  "'g random_module \<Rightarrow> string \<Rightarrow> 'g \<Rightarrow> py_error + (int \<times> 'g)" where
  "project_completion_of R sentiment g =
     (if sentiment \<noteq> ''negative'' then randint R 60 100 g else randint R 30 85 g)"

text \<open>Lines 315 to 377: one iteration of the loop, for the index \<open>i\<close>.\<close>

definition loop_body ::
  "'g random_module \<Rightarrow> string list \<Rightarrow> string list \<Rightarrow> int \<Rightarrow> 'g \<Rightarrow>
     py_error + (participant \<times> 'g)" where
  "loop_body R domains states i g0 =
     (let participant_id = CHR ''P'' # format_03d i in
      py_bind (choice R first_names g0) (\<lambda>(first_name, g1).
      py_bind (choice R last_names g1) (\<lambda>(last_name, g2).
      py_bind (randint R 18 35 g2) (\<lambda>(age, g3).
      py_bind (choice R [''Male'', ''Female'', ''Other''] g3) (\<lambda>(gender, g4).
      py_bind (choice R colleges g4) (\<lambda>(college, g5).
      py_bind (choice R states g5) (\<lambda>(state, g6).
      py_bind (choice R domains g6) (\<lambda>(domain, g7).
      py_bind (randint R 1 3 g7) (\<lambda>(day, g8).
      py_bind (registration_time_of R day g8) (\<lambda>(registration_time, g9).
      let (x, g10) = uniform R 4 10 g9 in
      py_bind (choices1 R [''positive'', ''neutral'', ''negative'']
                 [fl (6 / 10), fl (3 / 10), fl (1 / 10)] g10) (\<lambda>(sentiment, g11).
      py_bind (feedback_of R sentiment domain g11) (\<lambda>(feedback, g12).
      py_bind (project_completion_of R sentiment g12) (\<lambda>(project_completion, g13).
      Inr (\<lparr>Participant_ID = participant_id,
             Name = first_name @ '' '' @ last_name,
             Age = age,
             Gender = gender,
             College = college,
             State = state,
             Domain = domain,
             Day = day,
             Registration_Time = registration_time,
             Time_Spent = py_round1 x,
             Project_Completion = project_completion,
             Feedback = feedback\<rparr>, g13))))))))))))))"

text \<open>The loop over \<^verbatim>\<open>range(1, num_participants + 1)\<close>, appending one row per index.\<close>

fun generate_rows ::
  "'g random_module \<Rightarrow> string list \<Rightarrow> string list \<Rightarrow> int list \<Rightarrow> 'g \<Rightarrow> participant list \<Rightarrow>
     py_error + (participant list \<times> 'g)" where
  "generate_rows R domains states [] g data = Inr (data, g)"
| "generate_rows R domains states (i # rest) g data =
     py_bind (loop_body R domains states i g) (\<lambda>(row, g').
     generate_rows R domains states rest g' (data @ [row]))"

text \<open>
  \<^verbatim>\<open>generate_dataset(num_participants, domains, states, seed)\<close>, run in an interpreter
  state \<open>st\<close>: both global generators are seeded, then the rows are drawn. The result is
  the table (the list of rows, in order) and the interpreter state left behind.
  \<^verbatim>\<open>random.seed\<close> takes any integer; \<^verbatim>\<open>np.random.seed\<close> raises ValueError unless the
  seed lies between 0 and \<open>2\<^sup>3\<^sup>2 - 1\<close>.
\<close>

definition generate_dataset ::
  "'g random_module \<Rightarrow> 'g py_state \<Rightarrow> int \<Rightarrow> string list \<Rightarrow> string list \<Rightarrow> int \<Rightarrow>
     py_error + (participant list \<times> 'g py_state)" where
  "generate_dataset R st num_participants domains states seed =
     (let st1 = st\<lparr>random_state := rng_seed R seed\<rparr>
      in if seed < 0 \<or> 4294967296 \<le> seed then Inl ValueError
         else let st2 = st1\<lparr>np_random_seed := Some seed\<rparr>
              in py_bind
                   (generate_rows R domains states [1..num_participants] (random_state st2) [])
                   (\<lambda>(data, g). Inr (data, st2\<lparr>random_state := g\<rparr>)))"


text \<open>
  A small linear congruential generator, used where the model is run on concrete inputs.
\<close>

definition lcg_next :: "int \<Rightarrow> int" where
  "lcg_next g = (g * 1103515245 + 12345) mod 2147483648"

definition lcg :: "int random_module" where
  "lcg = \<lparr>rng_seed = (\<lambda>seed. seed mod 2147483648),
          rng_random = (\<lambda>g. (of_int (lcg_next g) / 2147483648, lcg_next g)),
          rng_randbelow = (\<lambda>n g. (nat ((lcg_next g div 65536) mod int n), lcg_next g))\<rparr>"

definition stopwords :: "string list" where
  "stopwords =
     [''i'', ''me'', ''my'', ''myself'', ''we'', ''our'', ''ours'', ''ourselves'', ''you'',
      ''you're'', ''you've'', ''you'll'', ''you'd'', ''your'', ''yours'', ''yourself'',
      ''yourselves'', ''he'', ''him'', ''his'', ''himself'', ''she'', ''she's'', ''her'',
      ''hers'', ''herself'', ''it'', ''it's'', ''its'', ''itself'', ''they'', ''them'',
      ''their'', ''theirs'', ''themselves'', ''what'', ''which'', ''who'', ''whom'',
      ''this'', ''that'', ''that'll'', ''these'', ''those'', ''am'', ''is'', ''are'',
      ''was'', ''were'', ''be'', ''been'', ''being'', ''have'', ''has'', ''had'', ''having'',
      ''do'', ''does'', ''did'', ''doing'', ''a'', ''an'', ''the'', ''and'', ''but'', ''if'',
      ''or'', ''because'', ''as'', ''until'', ''while'', ''of'', ''at'', ''by'', ''for'',
      ''with'', ''about'', ''against'', ''between'', ''into'', ''through'', ''during'',
      ''before'', ''after'', ''above'', ''below'', ''to'', ''from'', ''up'', ''down'',
      ''in'', ''out'', ''on'', ''off'', ''over'', ''under'', ''again'', ''further'',
      ''then'', ''once'', ''here'', ''there'', ''when'', ''where'', ''why'', ''how'',
      ''all'', ''any'', ''both'', ''each'', ''few'', ''more'', ''most'', ''other'', ''some'',
      ''such'', ''no'', ''nor'', ''not'', ''only'', ''own'', ''same'', ''so'', ''than'',
      ''too'', ''very'', ''s'', ''t'', ''can'', ''will'', ''just'', ''don'', ''don't'',
      ''should'', ''should've'', ''now'', ''d'', ''ll'', ''m'', ''o'', ''re'', ''ve'', ''y'',
      ''ain'', ''aren'', ''aren't'', ''couldn'', ''couldn't'', ''didn'', ''didn't'',
      ''doesn'', ''doesn't'', ''hadn'', ''hadn't'', ''hasn'', ''hasn't'', ''haven'',
      ''haven't'', ''isn'', ''isn't'', ''ma'', ''mightn'', ''mightn't'', ''mustn'',
      ''mustn't'', ''needn'', ''needn't'', ''shan'', ''shan't'', ''shouldn'', ''shouldn't'',
      ''wasn'', ''wasn't'', ''weren'', ''weren't'', ''won'', ''won't'', ''wouldn'',
      ''wouldn't'', ''the'', ''was'', ''and'', ''for'', ''would'']"

definition positive_keywords :: "string list" where
  "positive_keywords =
     [''loved'', ''great'', ''amazing'', ''excellent'', ''insightful'', ''enjoyed'',
      ''beneficial'', ''helpful'', ''rewarding'', ''best'']"

definition negative_keywords :: "string list" where
  "negative_keywords =
     [''disappointing'', ''poor'', ''issues'', ''frustrating'', ''unclear'', ''exhausting'',
      ''minimal'', ''bad'', ''lost'', ''overcrowded'']"
section \<open>Feedback analysis\<close>

subsection \<open>Keyword sentiment percentage\<close>

text \<open>
  Text is ASCII in the model. \<^verbatim>\<open>Series.str.contains(word, case=False)\<close> with a keyword of
  plain letters is a substring test that ignores case.
\<close>

definition is_upper :: "char \<Rightarrow> bool" where
  "is_upper c \<longleftrightarrow> 65 \<le> (of_char c :: nat) \<and> (of_char c :: nat) \<le> 90"

definition is_alpha :: "char \<Rightarrow> bool" where
  "is_alpha c \<longleftrightarrow> is_upper c \<or> (97 \<le> (of_char c :: nat) \<and> (of_char c :: nat) \<le> 122)"

definition is_word_char :: "char \<Rightarrow> bool" where
  "is_word_char c \<longleftrightarrow>
     is_alpha c \<or> (48 \<le> (of_char c :: nat) \<and> (of_char c :: nat) \<le> 57) \<or> c = CHR ''_''"

definition lower_char :: "char \<Rightarrow> char" where
  "lower_char c = (if is_upper c then char_of ((of_char c :: nat) + 32) else c)"

definition py_lower :: "string \<Rightarrow> string" where
  "py_lower s = map lower_char s"

fun has_substring :: "string \<Rightarrow> string \<Rightarrow> bool" where
  "has_substring w [] = (w = [])"
| "has_substring w (c # cs) = (take (length w) (c # cs) = w \<or> has_substring w cs)"

definition str_contains :: "string \<Rightarrow> string \<Rightarrow> bool" where
  "str_contains text word = has_substring (py_lower word) (py_lower text)"

text \<open>
  Lines 859 to 862: for each keyword the number of feedback texts containing it, summed over
  the keywords.
\<close>

definition keyword_count :: "string list \<Rightarrow> string list \<Rightarrow> nat" where
  "keyword_count feedbacks keywords =
     sum_list (map (\<lambda>word. length (filter (\<lambda>text. str_contains text word) feedbacks)) keywords)"

text \<open>Lines 864 and 865, on the feedback texts of the selected domain.\<close>

definition positive_percent :: "string list \<Rightarrow> py_error + rat" where
  "positive_percent feedbacks =
     (let positive_count = keyword_count feedbacks positive_keywords;
          negative_count = keyword_count feedbacks negative_keywords;
          total_keywords = positive_count + negative_count
      in if 0 < total_keywords
         then py_bind (py_truediv (of_nat positive_count) (of_nat total_keywords))
                (\<lambda>q. Inr (fmul q 100))
         else Inr 0)"

subsection \<open>Word frequencies\<close>

text \<open>
  \<^verbatim>\<open>re.findall(r'\b[a-zA-Z]{3,15}\b', text)\<close>. \<open>word_boundary\<close> is \<^verbatim>\<open>\b\<close> between two
  neighbouring characters (\<open>None\<close> at either end of the text). At a position where the
  pattern can start, the letters are matched greedily, at most 15, and the match backs off
  to the longest length of at least 3 that ends at a word boundary.
\<close>

definition is_word :: "char option \<Rightarrow> bool" where
  "is_word c = (case c of None \<Rightarrow> False | Some x \<Rightarrow> is_word_char x)"

definition word_boundary :: "char option \<Rightarrow> char option \<Rightarrow> bool" where
  "word_boundary prev nxt \<longleftrightarrow> is_word prev \<noteq> is_word nxt"

definition char_at :: "string \<Rightarrow> nat \<Rightarrow> char option" where
  "char_at s k = (if k < length s then Some (s ! k) else None)"

definition match_word :: "char option \<Rightarrow> string \<Rightarrow> nat option" where
  "match_word prev s =
     (if \<not> word_boundary prev (char_at s 0) then None
      else let m = length (takeWhile is_alpha (take 15 s))
           in find (\<lambda>k. word_boundary (char_at s (k - 1)) (char_at s k)) (rev [3..<m + 1]))"

lemma match_word_length: "match_word prev s = Some k \<Longrightarrow> 3 \<le> k \<and> k \<le> length s"
proof -
  assume "match_word prev s = Some k"
  then have "find (\<lambda>k. word_boundary (char_at s (k - 1)) (char_at s k))
      (rev [3..<length (takeWhile is_alpha (take 15 s)) + 1]) = Some k"
    by (simp add: match_word_def Let_def split: if_splits)
  then have "k \<in> set (rev [3..<length (takeWhile is_alpha (take 15 s)) + 1])"
    by (metis find_Some_iff nth_mem)
  moreover have "length (takeWhile is_alpha (take 15 s)) \<le> length s"
    by (rule order_trans [OF length_takeWhile_le]) simp
  ultimately show ?thesis by auto
qed

function findall_words :: "char option \<Rightarrow> string \<Rightarrow> string list" where
  "findall_words prev [] = []"
| "findall_words prev (c # cs) =
     (case match_word prev (c # cs) of
        None \<Rightarrow> findall_words (Some c) cs
      | Some k \<Rightarrow> take k (c # cs) # findall_words (char_at (c # cs) (k - 1)) (drop k (c # cs)))"
  by pat_completeness auto
termination
proof (relation "measure (\<lambda>(prev, s). length s)")
  fix prev :: "char option" and c :: char and cs :: string and k :: nat
  assume "match_word prev (c # cs) = Some k"
  then have "3 \<le> k" by (rule match_word_length [THEN conjunct1])
  then show "((char_at (c # cs) (k - 1), drop k (c # cs)), (prev, c # cs))
      \<in> measure (\<lambda>(prev, s). length s)"
    by simp
qed simp_all

declare findall_words.simps [simp del]




text \<open>Lines 771 to 775 of \<^verbatim>\<open>feedback_analysis\<close>.\<close>

definition feedback_words :: "string \<Rightarrow> string list" where
  "feedback_words combined_feedback =
     filter (\<lambda>word. word \<notin> set stopwords) (findall_words None (py_lower combined_feedback))"



section \<open>The sepia filter\<close>

text \<open>
  Lines 1064 to 1071, for one pixel of an RGB image: the channels read are 8-bit values, the
  weighted sums are float expressions evaluated from left to right, \<^verbatim>\<open>int\<close> truncates.
\<close>

definition sepia_pixel :: "8 word \<times> 8 word \<times> 8 word \<Rightarrow> int \<times> int \<times> int" where
  "sepia_pixel p =
     (let (r, g, b) = p;
          r = of_int (uint r); g = of_int (uint g); b = of_int (uint b);
          tr = py_int (fadd (fadd (fmul (fl (393 / 1000)) r) (fmul (fl (769 / 1000)) g))
                            (fmul (fl (189 / 1000)) b));
          tg = py_int (fadd (fadd (fmul (fl (349 / 1000)) r) (fmul (fl (686 / 1000)) g))
                            (fmul (fl (168 / 1000)) b));
          tb = py_int (fadd (fadd (fmul (fl (272 / 1000)) r) (fmul (fl (534 / 1000)) g))
                            (fmul (fl (131 / 1000)) b));
          tr = (if tr > 255 then 255 else tr);
          tg = (if tg > 255 then 255 else tg);
          tb = (if tb > 255 then 255 else tb)
      in (tr, tg, tb))"

text \<open>
  The weighted sum of a channel in exact arithmetic, the three weights given in
  thousandths: \<open>exact_sepia_sum 393 769 189 (r, g, b)\<close> is \<open>0.393 r + 0.769 g + 0.189 b\<close>.
\<close>

definition exact_sepia_sum :: "int \<Rightarrow> int \<Rightarrow> int \<Rightarrow> 8 word \<times> 8 word \<times> 8 word \<Rightarrow> rat" where
  "exact_sepia_sum a b c p =
     (case p of (r, g, bl) \<Rightarrow> of_int (a * uint r + b * uint g + c * uint bl) / 1000)"

section \<open>Auxiliary notions for the properties\<close>

text \<open>A row that some iteration of the loop with index \<open>i\<close> can produce.\<close>

definition row_from :: "'g random_module \<Rightarrow> string list \<Rightarrow> string list \<Rightarrow> int \<Rightarrow> participant \<Rightarrow> bool" where
  "row_from R domains states i row \<longleftrightarrow>
     (\<exists>g g'. loop_body R domains states i g = Inr (row, g'))"

text \<open>Lower-case letters, and the position of the first occurrence of a word in a list.\<close>

definition is_lower :: "char \<Rightarrow> bool" where
  "is_lower c \<longleftrightarrow> 97 \<le> (of_char c :: nat) \<and> (of_char c :: nat) \<le> 122"


text \<open>Reading a decimal numeral back, to tell formatted identifiers apart.\<close>

definition digit_value :: "char \<Rightarrow> nat" where
  "digit_value c = of_char c - 48"

definition decimal_value :: "string \<Rightarrow> nat" where
  "decimal_value s = foldl (\<lambda>a c. 10 * a + digit_value c) 0 s"

text \<open>
  The row that the generator draws with the generator \<open>lcg\<close>, seed 0, domains
  \<open>[''AI/ML'', ''Quantum'']\<close> and states \<open>[''Delhi'', ''Goa'']\<close>.
\<close>

definition run0_row :: participant where
  "run0_row =
     \<lparr>Participant_ID = ''P001'', Name = ''James Jackson'', Age = 34, Gender = ''Female'',
      College = ''NIT Surathkal'', State = ''Goa'', Domain = ''Quantum'', Day = 2,
      Registration_Time = 54140124889,
      Time_Spent = 6980579422424269 / 1125899906842624, Project_Completion = 60,
      Feedback =
        ''Moderate learning experience in Quantum. Not sure if I'll participate again.''\<rparr>"

section \<open>Properties of the floating-point model\<close>

lemma round_half_even_nonneg: "0 \<le> x \<Longrightarrow> 0 \<le> round_half_even x"
  by (auto simp: round_half_even_def Let_def)

lemma fl_nonneg: "0 \<le> x \<Longrightarrow> 0 \<le> fl x"
  by (auto simp: fl_def Let_def intro!: mult_nonneg_nonneg round_half_even_nonneg divide_nonneg_pos)

lemma fadd_nonneg: "0 \<le> a \<Longrightarrow> 0 \<le> b \<Longrightarrow> 0 \<le> fadd a b"
  by (simp add: fadd_def fl_nonneg)

lemma fmul_nonneg: "0 \<le> a \<Longrightarrow> 0 \<le> b \<Longrightarrow> 0 \<le> fmul a b"
  by (simp add: fmul_def fl_nonneg)

section \<open>Determinism of the generator\<close>

lemma py_state_all_updated:
  "(st :: 'g py_state)\<lparr>np_random_seed := a, random_state := g\<rparr> =
   \<lparr>random_state = g, np_random_seed = a\<rparr>"
  by (cases st) simp

text \<open>
  Claim C2. The generator is deterministic: for fixed count, domains, states and seed, two
  invocations give the same table field for field, whatever the state the interpreter's
  random generators were in before each call. The call reseeds both generators, so
  the state left behind is the same as well.
\<close>

theorem generate_dataset_deterministic:
  "generate_dataset R st1 num_participants domains states seed =
   generate_dataset R st2 num_participants domains states seed"
  by (simp add: generate_dataset_def py_state_all_updated)

section \<open>The sepia transform stays in range\<close>

lemma weighted_sum_nonneg:
  assumes "0 \<le> c1" "0 \<le> c2" "0 \<le> c3" "0 \<le> x" "0 \<le> y" "0 \<le> z"
  shows "0 \<le> fadd (fadd (fmul (fl c1) x) (fmul (fl c2) y)) (fmul (fl c3) z)"
  using assms by (intro fadd_nonneg fmul_nonneg fl_nonneg)

lemma channel_nonneg: "0 \<le> (of_int (uint (w :: 8 word)) :: rat)"
  by (simp only: of_int_0_le_iff uint_ge_0)

lemma sepia_channel:
  assumes "0 \<le> c1" "0 \<le> c2" "0 \<le> c3" "0 \<le> x" "0 \<le> y" "0 \<le> z"
  defines "t \<equiv> py_int (fadd (fadd (fmul (fl c1) x) (fmul (fl c2) y)) (fmul (fl c3) z))"
  shows "(if t > 255 then 255 else t) =
           min 255 \<lfloor>fadd (fadd (fmul (fl c1) x) (fmul (fl c2) y)) (fmul (fl c3) z)\<rfloor>"
    and "0 \<le> (if t > 255 then 255 else t)" and "(if t > 255 then 255 else t) \<le> 255"
proof -
  have "0 \<le> fadd (fadd (fmul (fl c1) x) (fmul (fl c2) y)) (fmul (fl c3) z)"
    using assms(1-6) by (rule weighted_sum_nonneg)
  then have t: "t = \<lfloor>fadd (fadd (fmul (fl c1) x) (fmul (fl c2) y)) (fmul (fl c3) z)\<rfloor>" "0 \<le> t"
    by (simp_all add: t_def py_int_def)
  show "(if t > 255 then 255 else t) =
           min 255 \<lfloor>fadd (fadd (fmul (fl c1) x) (fmul (fl c2) y)) (fmul (fl c3) z)\<rfloor>"
    unfolding t(1) [symmetric] by (simp add: min_def)
  show "0 \<le> (if t > 255 then 255 else t)" using t(2) by simp
  show "(if t > 255 then 255 else t) \<le> 255" by simp
qed

text \<open>
  The stored channels are \<open>min 255 \<lfloor>s\<rfloor>\<close> for the weighted sums \<open>s\<close> as the code evaluates
  them, in binary64 arithmetic from left to right, and they lie in \<open>[0, 255]\<close>.
\<close>

lemma sepia_pixel_float_sums:
  "sepia_pixel (r, g, b) =
     (min 255 \<lfloor>fadd (fadd (fmul (fl (393 / 1000)) (of_int (uint r)))
                            (fmul (fl (769 / 1000)) (of_int (uint g))))
                      (fmul (fl (189 / 1000)) (of_int (uint b)))\<rfloor>,
      min 255 \<lfloor>fadd (fadd (fmul (fl (349 / 1000)) (of_int (uint r)))
                            (fmul (fl (686 / 1000)) (of_int (uint g))))
                      (fmul (fl (168 / 1000)) (of_int (uint b)))\<rfloor>,
      min 255 \<lfloor>fadd (fadd (fmul (fl (272 / 1000)) (of_int (uint r)))
                            (fmul (fl (534 / 1000)) (of_int (uint g))))
                      (fmul (fl (131 / 1000)) (of_int (uint b)))\<rfloor>) \<and>
   0 \<le> fst (sepia_pixel (r, g, b)) \<and> fst (sepia_pixel (r, g, b)) \<le> 255 \<and>
   0 \<le> fst (snd (sepia_pixel (r, g, b))) \<and> fst (snd (sepia_pixel (r, g, b))) \<le> 255 \<and>
   0 \<le> snd (snd (sepia_pixel (r, g, b))) \<and> snd (snd (sepia_pixel (r, g, b))) \<le> 255"
proof -
  note ch = channel_nonneg [of r] channel_nonneg [of g] channel_nonneg [of b]
  have c: "(0::rat) \<le> 393 / 1000" "(0::rat) \<le> 769 / 1000" "(0::rat) \<le> 189 / 1000"
    "(0::rat) \<le> 349 / 1000" "(0::rat) \<le> 686 / 1000" "(0::rat) \<le> 168 / 1000"
    "(0::rat) \<le> 272 / 1000" "(0::rat) \<le> 534 / 1000" "(0::rat) \<le> 131 / 1000"
    by simp_all
  note tr = sepia_channel [OF c(1) c(2) c(3) ch]
  note tg = sepia_channel [OF c(4) c(5) c(6) ch]
  note tb = sepia_channel [OF c(7) c(8) c(9) ch]
  show ?thesis
    unfolding sepia_pixel_def Let_def prod.case fst_conv snd_conv
    by (intro conjI, unfold prod.inject, intro conjI) (rule tr tg tb)+
qed

lemma sepia_red_4_11_21:
  "py_int (fadd (fadd (fmul (fl (393 / 1000)) 4) (fmul (fl (769 / 1000)) 11))
                (fmul (fl (189 / 1000)) 21)) = 13"
  by code_simp

text \<open>
  Claim C10 as stated fails when the weighted sum is read as exact arithmetic: at the
  pixel \<open>(4, 11, 21)\<close> the exact red sum is 14, the float sum is just below 14, and the
  code stores 13.
\<close>

theorem sepia_exact_floor_counterexample:
  "fst (sepia_pixel (4, 11, 21)) = 13 \<and>
   min 255 \<lfloor>(393 / 1000 :: rat) * 4 + 769 / 1000 * 11 + 189 / 1000 * 21\<rfloor> = (14 :: int)"
proof
  show "fst (sepia_pixel (4, 11, 21)) = 13"
    unfolding sepia_pixel_def Let_def prod.case fst_conv
    by (simp add: sepia_red_4_11_21)
  show "min 255 \<lfloor>(393 / 1000 :: rat) * 4 + 769 / 1000 * 11 + 189 / 1000 * 21\<rfloor> = (14 :: int)"
    by simp
qed

section \<open>The draws of the generator\<close>


lemma py_bind_Inr [simp]: "py_bind (Inr x) f = f x"
  by (simp add: py_bind_def)

lemma py_bind_Inl [simp]: "py_bind (Inl e) f = Inl e"
  by (simp add: py_bind_def)

lemma py_bind_eq_Inr: "py_bind m f = Inr y \<longleftrightarrow> (\<exists>x. m = Inr x \<and> f x = Inr y)"
  by (cases m) simp_all

lemma prng_ok_randbelow: "prng_ok R \<Longrightarrow> 0 < n \<Longrightarrow> fst (rng_randbelow R n g) < n"
  by (simp add: prng_ok_def)

lemma prng_ok_random: "prng_ok R \<Longrightarrow> 0 \<le> fst (rng_random R g) \<and> fst (rng_random R g) < 1"
  by (simp add: prng_ok_def)

lemma choice_Inr_mem: "choice R seq g = Inr (x, g') \<Longrightarrow> x \<in> set seq"
  by (auto simp: choice_def Let_def split: if_splits prod.splits)

lemma choice_ok:
  "prng_ok R \<Longrightarrow> seq \<noteq> [] \<Longrightarrow> \<exists>x g'. choice R seq g = Inr (x, g')"
  using prng_ok_randbelow [of R "length seq" g]
  by (auto simp: choice_def Let_def split: prod.splits)

lemma choice_error: "choice R seq g = Inl e \<Longrightarrow> e = IndexError"
  by (auto simp: choice_def Let_def split: if_splits prod.splits)

lemma choice_empty: "choice R [] g = Inl IndexError"
  by (simp add: choice_def)

lemma randint_ok:
  "a \<le> b \<Longrightarrow> randint R a b g =
     Inr (a + int (fst (rng_randbelow R (nat (b + 1 - a)) g)),
          snd (rng_randbelow R (nat (b + 1 - a)) g))"
  by (simp add: randint_def Let_def split: prod.splits)

lemma randint_range:
  assumes "prng_ok R" "randint R a b g = Inr (k, g')"
  shows "a \<le> k \<and> k \<le> b"
proof -
  have w: "0 < b + 1 - a" using assms(2) by (auto simp: randint_def Let_def split: if_splits)
  then have "fst (rng_randbelow R (nat (b + 1 - a)) g) < nat (b + 1 - a)"
    using assms(1) by (intro prng_ok_randbelow) simp_all
  moreover have "k = a + int (fst (rng_randbelow R (nat (b + 1 - a)) g))"
    using assms(2) w by (auto simp: randint_def Let_def split: if_splits prod.splits)
  ultimately show ?thesis by linarith
qed

lemma bisect_right_bounds:
  "lo \<le> hi \<Longrightarrow> lo \<le> bisect_right a x lo hi \<and> bisect_right a x lo hi \<le> hi"
proof (induction a x lo hi rule: bisect_right.induct)
  case (1 a x lo hi)
  show ?case
  proof (cases "lo < hi")
    case False
    then have "bisect_right a x lo hi = lo" by (subst bisect_right.simps) simp
    with "1.prems" show ?thesis by simp
  next
    case True
    let ?mid = "(lo + hi) div 2"
    have m: "lo \<le> ?mid" "?mid < hi" using True by simp_all
    show ?thesis
    proof (cases "x < a ! ?mid")
      case True
      with "1.IH"(1) [OF \<open>lo < hi\<close> refl True] m \<open>lo < hi\<close>
      show ?thesis by (simp add: bisect_right.simps [of a x lo hi] Let_def)
    next
      case False
      with "1.IH"(2) [OF \<open>lo < hi\<close> refl False] m \<open>lo < hi\<close>
      show ?thesis by (simp add: bisect_right.simps [of a x lo hi] Let_def)
    qed
  qed
qed

lemma sentiment_weights:
  "accumulate [fl (6 / 10), fl (3 / 10), fl (1 / 10)] =
     [5404319552844595 / 9007199254740992, 8106479329266892 / 9007199254740992,
      9007199254740991 / 9007199254740992]"
  by code_simp

lemma choices1_sentiment_ok:
  "\<exists>s g'. choices1 R [''positive'', ''neutral'', ''negative'']
             [fl (6 / 10), fl (3 / 10), fl (1 / 10)] g = Inr (s, g') \<and>
          s \<in> {''positive'', ''neutral'', ''negative''}"
proof -
  define cw where "cw = accumulate [fl (6 / 10), fl (3 / 10), fl (1 / 10)]"
  have len: "length cw = 3" by (simp add: cw_def accumulate_def)
  have lastcw: "last cw = 9007199254740991 / 9007199254740992"
    unfolding cw_def sentiment_weights by simp
  have tot: "fadd (last cw) 0 = 9007199254740991 / 9007199254740992"
    unfolding lastcw by code_simp
  obtain u g' where u: "rng_random R g = (u, g')" by (cases "rng_random R g")
  have lt: "bisect_right cw x 0 (Suc (Suc 0)) < Suc (Suc (Suc 0))" for x
    using bisect_right_bounds [of 0 "Suc (Suc 0)" cw x] by simp
  have mem: "[p, n, ng] ! j = p \<or> [p, n, ng] ! j = n \<or> [p, n, ng] ! j = ng"
    if "j < Suc (Suc (Suc 0))" for j and p n ng :: string
    using that by (auto simp: less_Suc_eq)
  show ?thesis
    unfolding choices1_def Let_def cw_def [symmetric]
    using mem [OF lt] by (simp add: len tot u lt)
qed


section \<open>Rounding to binary64 is monotone\<close>

lemma pow2_nat_powi: "0 \<le> k \<Longrightarrow> (2::rat) ^ nat k = 2 powi k"
  by (simp add: power_int_nonneg_exp)

lemma float_exponent_bounds:
  assumes "0 < x"
  shows "2 powi float_exponent x \<le> x \<and> x < 2 powi (float_exponent x + 1)"
proof -
  obtain p q where pq: "quotient_of x = (p, q)" by (cases "quotient_of x")
  have q: "0 < q" using pq by (rule quotient_of_denom_pos)
  have x: "x = of_int p / of_int q" using pq by (rule quotient_of_div)
  have p: "0 < p" using assms q unfolding x by (simp add: zero_less_divide_iff)
  define bp where "bp = bitlen p"
  define bq where "bq = bitlen q"
  have bp: "2 ^ nat (bp - 1) \<le> p" "p < 2 ^ nat bp"
    using bitlen_bounds [OF p] by (simp_all add: bp_def)
  have bq: "2 ^ nat (bq - 1) \<le> q" "q < 2 ^ nat bq"
    using bitlen_bounds [OF q] by (simp_all add: bq_def)
  have bp1: "1 \<le> bp" using p by (simp add: bp_def bitlen_alt_def)
  have bq1: "1 \<le> bq" using q by (simp add: bq_def bitlen_alt_def)
  have P: "(2::rat) powi (bp - 1) \<le> of_int p" "(of_int p :: rat) < 2 powi bp"
  proof -
    have "(of_int (2 ^ nat (bp - 1)) :: rat) \<le> of_int p" using bp(1) by (simp only: of_int_le_iff)
    then show "(2::rat) powi (bp - 1) \<le> of_int p" using bp1 by (simp add: power_int_nonneg_exp)
    have "(of_int p :: rat) < of_int (2 ^ nat bp)" using bp(2) by (simp only: of_int_less_iff)
    then show "(of_int p :: rat) < 2 powi bp" using bp1 by (simp add: power_int_nonneg_exp)
  qed
  have Q: "(2::rat) powi (bq - 1) \<le> of_int q" "(of_int q :: rat) < 2 powi bq"
  proof -
    have "(of_int (2 ^ nat (bq - 1)) :: rat) \<le> of_int q" using bq(1) by (simp only: of_int_le_iff)
    then show "(2::rat) powi (bq - 1) \<le> of_int q" using bq1 by (simp add: power_int_nonneg_exp)
    have "(of_int q :: rat) < of_int (2 ^ nat bq)" using bq(2) by (simp only: of_int_less_iff)
    then show "(of_int q :: rat) < 2 powi bq" using bq1 by (simp add: power_int_nonneg_exp)
  qed
  have qpos: "(0::rat) < of_int q" using q by simp
  have ppos: "(0::rat) < of_int p" using p by simp
  have upper: "x < 2 powi (bp - bq + 1)"
  proof -
    have "x * of_int q = (of_int p :: rat)" using qpos by (simp add: x)
    also have "\<dots> < 2 powi bp" by (rule P(2))
    also have "\<dots> = 2 powi (bp - bq + 1) * 2 powi (bq - 1)"
      by (simp flip: power_int_add)
    also have "\<dots> \<le> 2 powi (bp - bq + 1) * of_int q"
      using Q(1) by (intro mult_left_mono) simp_all
    finally show ?thesis using qpos by simp
  qed
  have lower: "2 powi (bp - bq - 1) < x"
  proof -
    have "(2::rat) powi (bp - bq - 1) * of_int q < 2 powi (bp - bq - 1) * 2 powi bq"
      using Q(2) by (intro mult_strict_left_mono) simp_all
    also have "\<dots> = 2 powi (bp - 1)" by (simp flip: power_int_add)
    also have "\<dots> \<le> of_int p" by (rule P(1))
    also have "\<dots> = x * of_int q" using qpos by (simp add: x)
    finally show ?thesis using qpos by simp
  qed
  have fe: "float_exponent x = (if 2 powi (bp - bq) \<le> x then bp - bq else bp - bq - 1)"
    by (simp add: float_exponent_def pq bp_def bq_def Let_def)
  show ?thesis
  proof (cases "2 powi (bp - bq) \<le> x")
    case True
    with upper fe show ?thesis by simp
  next
    case False
    with lower fe show ?thesis by simp
  qed
qed

lemma float_exponent_unique:
  assumes "2 powi e \<le> x" "x < 2 powi (e + 1)"
  shows "float_exponent x = e"
proof -
  have x: "0 < x" by (rule less_le_trans [OF _ assms(1)]) simp
  note b = float_exponent_bounds [OF x]
  have "\<not> float_exponent x < e"
  proof
    assume "float_exponent x < e"
    then have "(2::rat) powi (float_exponent x + 1) \<le> 2 powi e"
      by (intro power_int_increasing) simp_all
    with b assms(1) show False by simp
  qed
  moreover have "\<not> e < float_exponent x"
  proof
    assume "e < float_exponent x"
    then have "(2::rat) powi (e + 1) \<le> 2 powi float_exponent x"
      by (intro power_int_increasing) simp_all
    with b assms(2) show False by simp
  qed
  ultimately show ?thesis by simp
qed

lemma fl_pos_eq:
  assumes "2 powi e \<le> x" "x < 2 powi (e + 1)"
  shows "fl x = of_int (round_half_even (x / 2 powi (e - 52))) * 2 powi (e - 52)"
proof -
  have x: "0 < x" by (rule less_le_trans [OF _ assms(1)]) simp
  then show ?thesis
    by (simp add: fl_def Let_def float_exponent_unique [OF assms])
qed

lemma round_half_even_of_int [simp]: "round_half_even (of_int n) = n"
  by (simp add: round_half_even_def)

lemma round_half_even_cases:
  "round_half_even x = \<lfloor>x\<rfloor> \<or> round_half_even x = \<lfloor>x\<rfloor> + 1"
  by (simp add: round_half_even_def Let_def)

lemma round_half_even_mono:
  assumes "x \<le> y"
  shows "round_half_even x \<le> round_half_even y"
proof (cases "\<lfloor>x\<rfloor> = \<lfloor>y\<rfloor>")
  case True
  then have "x - of_int \<lfloor>x\<rfloor> \<le> y - of_int \<lfloor>y\<rfloor>" using assms by simp
  then show ?thesis using True by (auto simp: round_half_even_def Let_def)
next
  case False
  with assms have "\<lfloor>x\<rfloor> < \<lfloor>y\<rfloor>" by (simp add: floor_mono order.strict_iff_order)
  moreover have "round_half_even x \<le> \<lfloor>x\<rfloor> + 1" using round_half_even_cases [of x] by auto
  moreover have "\<lfloor>y\<rfloor> \<le> round_half_even y" using round_half_even_cases [of y] by auto
  ultimately show ?thesis by linarith
qed

lemma fl_binade:
  assumes "2 powi e \<le> x" "x < 2 powi (e + 1)"
  shows "2 powi e \<le> fl x \<and> fl x \<le> 2 powi (e + 1)"
proof -
  let ?ulp = "(2::rat) powi (e - 52)"
  have ulp: "0 < ?ulp" by simp
  have lo: "(2::rat) powi e = of_int (2 ^ 52) * ?ulp"
    by (simp add: power_int_diff)
  have hi: "(2::rat) powi (e + 1) = of_int (2 ^ 53) * ?ulp"
    by (simp add: power_int_diff power_int_add)
  have "of_int (2 ^ 52) \<le> x / ?ulp"
    using assms(1) ulp unfolding lo by (simp add: pos_le_divide_eq)
  from round_half_even_mono [OF this]
  have a: "2 ^ 52 \<le> round_half_even (x / ?ulp)"
    by (simp only: round_half_even_of_int)
  have "x / ?ulp \<le> of_int (2 ^ 53)"
    using assms(2) ulp unfolding hi by (simp add: pos_divide_le_eq)
  from round_half_even_mono [OF this]
  have b: "round_half_even (x / ?ulp) \<le> 2 ^ 53"
    by (simp only: round_half_even_of_int)
  have "of_int (2 ^ 52) * ?ulp \<le> of_int (round_half_even (x / ?ulp)) * ?ulp"
    using a ulp by (intro mult_right_mono) (simp_all only: of_int_le_iff less_imp_le)
  moreover have "of_int (round_half_even (x / ?ulp)) * ?ulp \<le> of_int (2 ^ 53) * ?ulp"
    using b ulp by (intro mult_right_mono) (simp_all only: of_int_le_iff less_imp_le)
  ultimately show ?thesis
    unfolding fl_pos_eq [OF assms] lo hi by simp
qed

lemma fl_zero [simp]: "fl 0 = 0"
  by (simp add: fl_def)

lemma fl_mono_pos:
  assumes "0 < x" "x \<le> y"
  shows "fl x \<le> fl y"
proof -
  have y: "0 < y" using assms by simp
  define ex where "ex = float_exponent x"
  define ey where "ey = float_exponent y"
  note bx = float_exponent_bounds [OF assms(1), folded ex_def]
  note by' = float_exponent_bounds [OF y, folded ey_def]
  have "ex \<le> ey"
  proof (rule ccontr)
    assume "\<not> ex \<le> ey"
    then have "(2::rat) powi (ey + 1) \<le> 2 powi ex"
      by (intro power_int_increasing) simp_all
    with bx by' assms(2) show False by simp
  qed
  show ?thesis
  proof (cases "ex = ey")
    case True
    let ?ulp = "(2::rat) powi (ex - 52)"
    have "x / ?ulp \<le> y / ?ulp" using assms(2) by (simp add: divide_right_mono)
    from round_half_even_mono [OF this]
    have "of_int (round_half_even (x / ?ulp)) * ?ulp \<le> of_int (round_half_even (y / ?ulp)) * ?ulp"
      by (intro mult_right_mono) simp_all
    then show ?thesis
      using fl_pos_eq [of ex x] fl_pos_eq [of ex y] bx by' True by simp
  next
    case False
    with \<open>ex \<le> ey\<close> have "(2::rat) powi (ex + 1) \<le> 2 powi ey"
      by (intro power_int_increasing) simp_all
    moreover have "fl x \<le> 2 powi (ex + 1)" using fl_binade [of ex x] bx by simp
    moreover have "2 powi ey \<le> fl y" using fl_binade [of ey y] by' by simp
    ultimately show ?thesis by simp
  qed
qed

lemma fl_mono: "0 \<le> x \<Longrightarrow> x \<le> y \<Longrightarrow> fl x \<le> fl y"
  using fl_mono_pos [of x y] fl_nonneg [of y] by (cases "x = 0") simp_all

lemma fl_le:
  assumes "0 \<le> x" "x \<le> c" "fl c = c"
  shows "fl x \<le> c"
  using fl_mono [OF assms(1,2)] assms(3) by simp

lemma fl_1: "fl 1 = 1"
  using fl_pos_eq [of 0 1] by (simp add: round_half_even_def)

lemma fl_2: "fl 2 = 2"
  using fl_pos_eq [of 1 2] by (simp add: round_half_even_def)

lemma fl_86400: "fl 86400 = 86400"
  using fl_pos_eq [of 16 86400] by (simp add: round_half_even_def)

lemma fl_us_per_second: "fl 1000000 = 1000000"
  using fl_pos_eq [of 19 1000000] by (simp add: round_half_even_def)

lemma fl_us_per_day: "fl 86400000000 = 86400000000"
  using fl_pos_eq [of 36 86400000000] by (simp add: round_half_even_def)

lemma fl_dyadic:
  assumes m: "0 < m" "m < 2 ^ 53"
  shows "fl (of_int m / 2 ^ k) = of_int m / 2 ^ k"
proof -
  define x :: rat where "x = of_int m / 2 ^ k"
  have x: "0 < x" using m(1) by (simp add: x_def)
  define e where "e = float_exponent x"
  note b = float_exponent_bounds [OF x, folded e_def]
  have "(of_int m :: rat) < of_int (2 ^ 53)" using m(2) by (simp only: of_int_less_iff)
  then have "x < 2 ^ 53 / 2 ^ k" by (simp add: x_def divide_strict_right_mono)
  also have "\<dots> = 2 powi (53 - int k)" by (simp add: power_int_diff)
  finally have lt: "(2::rat) powi e < 2 powi (53 - int k)" using b by simp
  have "e < 53 - int k"
  proof (rule ccontr)
    assume "\<not> e < 53 - int k"
    then have "(2::rat) powi (53 - int k) \<le> 2 powi e"
      by (intro power_int_increasing) simp_all
    with lt show False by simp
  qed
  then have n: "0 \<le> 52 - e - int k" by simp
  define j where "j = nat (52 - e - int k)"
  have "x / 2 powi (e - 52) = of_int m * 2 powi (52 - e - int k)"
    by (simp add: x_def power_int_diff power_int_add field_simps power_int_minus)
  also have "\<dots> = of_int (m * 2 ^ j)" using n by (simp add: j_def power_int_nonneg_exp)
  finally have "round_half_even (x / 2 powi (e - 52)) = m * 2 ^ j"
    by (simp only: round_half_even_of_int)
  then have "fl x = of_int (m * 2 ^ j) * 2 powi (e - 52)"
    using fl_pos_eq [of e x] b by simp
  also have "\<dots> = of_int m * (2 powi (52 - e - int k) * 2 powi (e - 52))"
    using n by (simp add: j_def power_int_nonneg_exp)
  also have "\<dots> = of_int m * 2 powi (- int k)" by (simp flip: power_int_add)
  also have "\<dots> = x" by (simp add: x_def power_int_minus field_simps)
  finally show ?thesis by (simp add: x_def)
qed

section \<open>Bounds of a timedelta built from floats\<close>

lemma accum_step:
  assumes num: "0 \<le> num" "num \<le> of_int N"
    and l: "0 \<le> l" "l \<le> L" and L: "fl L = L" "fl (L + 1) = L + 1"
    and factor: "0 < factor" "fl (of_int factor) = of_int factor"
    and acc: "accum (s, l) num factor = (s', l')"
  shows "s \<le> s' \<and> 0 \<le> l' \<and>
         ((s' = s + N * factor \<and> l' \<le> L) \<or> (s' \<le> s + N * factor - 1 \<and> l' \<le> L + 1))"
proof -
  define ip where "ip = \<lfloor>num\<rfloor>"
  define frac where "frac = num - of_int ip"
  have ip: "0 \<le> ip" "ip \<le> N" using num by (simp_all add: ip_def floor_le_iff le_floor_iff)
  have frac: "0 \<le> frac" "frac < 1" by (simp_all add: frac_def ip_def) linarith
  have pi: "py_int num = ip" using num(1) by (simp add: py_int_def ip_def)
  have L0: "0 \<le> L" using l by simp
  have acc': "(s', l') =
      (if frac = 0 then (s + ip * factor, l)
       else (s + ip * factor + py_int (fmul (of_int factor) frac),
             fadd l (fmul (of_int factor) frac - of_int (py_int (fmul (of_int factor) frac)))))"
    unfolding acc [symmetric] by (simp add: accum_def Let_def pi frac_def)
  show ?thesis
  proof (cases "frac = 0")
    case True
    then have eq: "s' = s + ip * factor" "l' = l"
      using acc' by simp_all
    have "0 \<le> ip * factor" using ip(1) factor(1) by simp
    moreover have "ip = N \<or> ip * factor \<le> N * factor - 1"
    proof (cases "ip = N")
      case False
      with ip(2) have "ip + 1 \<le> N" by simp
      then have "(ip + 1) * factor \<le> N * factor" using factor(1) by (intro mult_right_mono) simp_all
      then have "ip * factor + factor \<le> N * factor" by (simp add: algebra_simps)
      with factor(1) have "ip * factor \<le> N * factor - 1" by linarith
      then show ?thesis ..
    qed simp
    ultimately show ?thesis using l L0 unfolding eq by auto
  next
    case False
    define dnum where "dnum = fmul (of_int factor) frac"
    define ip2 where "ip2 = \<lfloor>dnum\<rfloor>"
    have fpos: "(0::rat) < of_int factor" using factor(1) by simp
    have d0: "0 \<le> dnum" unfolding dnum_def using frac(1) fpos by (intro fmul_nonneg) simp_all
    have "of_int factor * frac \<le> of_int factor" using frac fpos by simp
    moreover have "0 \<le> of_int factor * frac" using frac(1) fpos by simp
    ultimately have d1: "dnum \<le> of_int factor"
      unfolding dnum_def fmul_def using factor(2) by (intro fl_le)
    have pi2: "py_int dnum = ip2" using d0 by (simp add: py_int_def ip2_def)
    have ip2: "0 \<le> ip2" "ip2 \<le> factor" using d0 d1 by (simp_all add: ip2_def floor_le_iff le_floor_iff)
    have eq: "s' = s + ip * factor + ip2" "l' = fadd l (dnum - of_int ip2)"
      using acc' False pi2 by (simp_all add: dnum_def)
    have f2: "0 \<le> dnum - of_int ip2" "dnum - of_int ip2 < 1"
      by (simp_all add: ip2_def) linarith
    have "num \<noteq> of_int ip" using False by (simp add: frac_def)
    then have "ip \<noteq> N" using num(2) by (simp add: ip_def) linarith
    with ip(2) have "ip + 1 \<le> N" by simp
    then have "(ip + 1) * factor \<le> N * factor" using factor(1) by (intro mult_right_mono) simp_all
    then have ipf: "ip * factor + factor \<le> N * factor" by (simp add: algebra_simps)
    have s0: "s \<le> s'" unfolding eq using ip(1) ip2(1) factor(1) by simp
    have l0: "0 \<le> l'" unfolding eq using l(1) f2(1) by (intro fadd_nonneg)
    show ?thesis
    proof (cases "ip2 = factor")
      case True
      then have "dnum = of_int ip2" using d1 f2(1) by simp
      then have "l' = fl l" by (simp add: eq fadd_def)
      then have "l' \<le> L" using fl_le [OF l L(1)] by simp
      moreover have "s' \<le> s + N * factor" unfolding eq using ipf True by simp
      ultimately show ?thesis using s0 l0 by force
    next
      case False
      with ip2(2) have "ip2 \<le> factor - 1" by simp
      then have "s' \<le> s + N * factor - 1" unfolding eq using ipf by simp
      moreover have "l + (dnum - of_int ip2) \<le> L + 1" using l(2) f2(2) by simp
      then have "l' \<le> L + 1"
        unfolding eq fadd_def using l(1) f2(1) L(2) by (intro fl_le) simp_all
      ultimately show ?thesis using s0 l0 by simp
    qed
  qed
qed

lemma timedelta_of_bounds:
  assumes d: "0 \<le> days" "days \<le> of_int D" and s: "0 \<le> seconds" "seconds \<le> 86400"
  shows "0 \<le> timedelta_of days seconds \<and>
         timedelta_of days seconds \<le> D * us_per_day + us_per_day"
proof -
  obtain x1 l1 where a1: "accum (0, 0) seconds us_per_second = (x1, l1)"
    by (cases "accum (0, 0) seconds us_per_second")
  obtain x2 l2 where a2: "accum (x1, l1) days us_per_day = (x2, l2)"
    by (cases "accum (x1, l1) days us_per_day")
  have s': "seconds \<le> of_int 86400" using s(2) by simp
  have fs: "fl (of_int us_per_second) = of_int us_per_second"
    by (simp add: us_per_second_def fl_us_per_second)
  have fd: "fl (of_int us_per_day) = of_int us_per_day"
    by (simp add: us_per_day_def fl_us_per_day)
  have fl01: "fl (0 + 1) = 0 + 1" by (simp add: fl_1)
  have fl12: "fl (1 + 1) = 1 + 1" by (simp add: fl_2)
  from accum_step [OF s(1) s' order_refl order_refl fl_zero fl01 _ fs a1]
  have 1: "0 \<le> x1" "0 \<le> l1"
    "(x1 = 86400 * us_per_second \<and> l1 \<le> 0) \<or> (x1 \<le> 86400 * us_per_second - 1 \<and> l1 \<le> 1)"
    by (simp_all add: us_per_second_def)
  have 2: "x1 \<le> x2 \<and> 0 \<le> l2 \<and>
      of_int x2 + l2 \<le> of_int (D * us_per_day + us_per_day)"
  proof (cases "l1 \<le> 0")
    case True
    with 1 have x1: "x1 \<le> 86400 * us_per_second" by auto
    from accum_step [OF d 1(2) True fl_zero fl01 _ fd a2]
    have "x1 \<le> x2 \<and> 0 \<le> l2 \<and>
      ((x2 = x1 + D * us_per_day \<and> l2 \<le> 0) \<or> (x2 \<le> x1 + D * us_per_day - 1 \<and> l2 \<le> 0 + 1))"
      by (simp add: us_per_day_def)
    moreover have "(of_int x2 :: rat) \<le> of_int (x1 + D * us_per_day - 1)"
      if "x2 \<le> x1 + D * us_per_day - 1" using that by (simp only: of_int_le_iff)
    moreover have "(of_int x1 :: rat) \<le> of_int (86400 * us_per_second)"
      using x1 by (simp only: of_int_le_iff)
    ultimately show ?thesis
      by (auto simp: us_per_day_def us_per_second_def)
  next
    case False
    with 1 have x1: "x1 \<le> 86400 * us_per_second - 1" "l1 \<le> 1" by auto
    from accum_step [OF d 1(2) x1(2) fl_1 fl12 _ fd a2]
    have "x1 \<le> x2 \<and> 0 \<le> l2 \<and>
      ((x2 = x1 + D * us_per_day \<and> l2 \<le> 1) \<or> (x2 \<le> x1 + D * us_per_day - 1 \<and> l2 \<le> 1 + 1))"
      by (simp add: us_per_day_def)
    moreover have "(of_int x2 :: rat) \<le> of_int (x1 + D * us_per_day - 1)"
      if "x2 \<le> x1 + D * us_per_day - 1" using that by (simp only: of_int_le_iff)
    moreover have "(of_int x1 :: rat) \<le> of_int (86400 * us_per_second - 1)"
      using x1(1) by (simp only: of_int_le_iff)
    ultimately show ?thesis
      by (auto simp: us_per_day_def us_per_second_def)
  qed
  have td: "timedelta_of days seconds = round_half_even (of_int x2 + l2)"
    by (simp add: timedelta_of_def a1 a2)
  have "0 \<le> of_int x2 + l2" using 1(1) 2 by simp
  then have lo: "0 \<le> timedelta_of days seconds"
    unfolding td by (rule round_half_even_nonneg)
  have "round_half_even (of_int x2 + l2) \<le> round_half_even (of_int (D * us_per_day + us_per_day))"
    using 2 by (intro round_half_even_mono) simp
  then have hi: "timedelta_of days seconds \<le> D * us_per_day + us_per_day"
    unfolding td by (simp only: round_half_even_of_int)
  from lo hi show ?thesis ..
qed

section \<open>One iteration of the generator loop\<close>

lemma keywords_nonempty: "map_of domain_keywords domain = Some keywords \<Longrightarrow> keywords \<noteq> []"
proof -
  assume "map_of domain_keywords domain = Some keywords"
  then have "(domain, keywords) \<in> set domain_keywords" by (rule map_of_SomeD)
  then show ?thesis by (auto simp: domain_keywords_def)
qed

lemma feedback_of_ok:
  assumes "prng_ok R"
  shows "\<exists>f g'. feedback_of R sentiment domain g = Inr (f, g')"
proof -
  let ?templates = "if sentiment = ''positive'' then positive_feedback
           else if sentiment = ''neutral'' then neutral_feedback
           else negative_feedback"
  have "?templates \<noteq> []"
    by (simp add: positive_feedback_def neutral_feedback_def negative_feedback_def)
  from choice_ok [OF assms this] obtain t g1 where t: "choice R ?templates g = Inr (t, g1)"
    by blast
  show ?thesis
  proof (cases "map_of domain_keywords domain")
    case None
    with t show ?thesis by (simp add: feedback_of_def)
  next
    case (Some kws)
    from choice_ok [OF assms keywords_nonempty [OF Some]]
    obtain k g2 where "choice R kws g1 = Inr (k, g2)" by blast
    with t Some show ?thesis by (simp add: feedback_of_def)
  qed
qed

lemma feedback_of_error: "feedback_of R sentiment domain g = Inl e \<Longrightarrow> e = IndexError"
  by (auto simp: feedback_of_def py_bind_def Let_def
      split: sum.splits prod.splits option.splits dest: choice_error)

lemma project_completion_of_ok:
  "project_completion_of R sentiment g =
     (if sentiment \<noteq> ''negative''
      then Inr (60 + int (fst (rng_randbelow R 41 g)), snd (rng_randbelow R 41 g))
      else Inr (30 + int (fst (rng_randbelow R 56 g)), snd (rng_randbelow R 56 g)))"
  by (simp add: project_completion_of_def randint_ok)

lemma project_completion_of_range:
  assumes "prng_ok R" "project_completion_of R sentiment g = Inr (k, g')"
  shows "(sentiment = ''negative'' \<longrightarrow> 30 \<le> k \<and> k \<le> 85) \<and>
         (sentiment \<noteq> ''negative'' \<longrightarrow> 60 \<le> k \<and> k \<le> 100)"
  using assms randint_range [OF assms(1), of 60 100 g k g'] randint_range [OF assms(1), of 30 85 g k g']
  by (auto simp: project_completion_of_def split: if_splits)

lemma registration_time_of_ok:
  "1 \<le> day \<Longrightarrow> day \<le> 3 \<Longrightarrow>
   registration_time_of R day g =
     Inr (random_date_time R 0 ((day - 1) * us_per_day + 86399 * us_per_second) g)"
  by (simp add: registration_time_of_def datetime_2023_3_def)

lemma pools_nonempty:
  "first_names \<noteq> []" "last_names \<noteq> []" "colleges \<noteq> []"
  by (simp_all add: first_names_def last_names_def colleges_def)

lemma py_bind_pair_ok:
  assumes "\<exists>a g. m = Inr (a, g)"
    and "\<And>a g. m = Inr (a, g) \<Longrightarrow> \<exists>y. f a g = Inr y"
  shows "\<exists>y. py_bind m (\<lambda>(a, g). f a g) = Inr y"
  using assms by auto

lemma case_pair_ok:
  assumes "\<And>a b. p = (a, b) \<Longrightarrow> \<exists>y. f a b = Inr y"
  shows "\<exists>y. (case p of (a, b) \<Rightarrow> f a b) = Inr y"
  using assms by (cases p) simp

lemma randint_total: "a \<le> b \<Longrightarrow> \<exists>k g'. randint R a b g = Inr (k, g')"
  by (simp add: randint_ok)

lemma registration_time_of_total:
  assumes "prng_ok R" "randint R 1 3 g = Inr (day, g')"
  shows "\<exists>rt g9. registration_time_of R day g8 = Inr (rt, g9)"
proof -
  from randint_range [OF assms] have "1 \<le> day" "day \<le> 3" by simp_all
  then show ?thesis
    by (simp add: registration_time_of_ok)
qed

lemma project_completion_of_total:
  "\<exists>pc g'. project_completion_of R sentiment g = Inr (pc, g')"
  by (cases "sentiment = ''negative''") (simp_all add: project_completion_of_def randint_ok)

lemma choices1_sentiment_total:
  "\<exists>s g'. choices1 R [''positive'', ''neutral'', ''negative'']
             [fl (6 / 10), fl (3 / 10), fl (1 / 10)] g = Inr (s, g')"
  using choices1_sentiment_ok [of R g] by blast

lemma loop_body_ok:
  assumes R: "prng_ok R" and d: "domains \<noteq> []" and s: "states \<noteq> []"
  shows "\<exists>y. loop_body R domains states i g0 = Inr y"
  unfolding loop_body_def Let_def
  apply (rule py_bind_pair_ok, rule choice_ok [OF R pools_nonempty(1)])
  apply (rule py_bind_pair_ok, rule choice_ok [OF R pools_nonempty(2)])
  apply (rule py_bind_pair_ok, rule randint_total, simp)
  apply (rule py_bind_pair_ok, rule choice_ok [OF R], simp)
  apply (rule py_bind_pair_ok, rule choice_ok [OF R pools_nonempty(3)])
  apply (rule py_bind_pair_ok, rule choice_ok [OF R s])
  apply (rule py_bind_pair_ok, rule choice_ok [OF R d])
  apply (rule py_bind_pair_ok, rule randint_total, simp)
  apply (rule py_bind_pair_ok, erule registration_time_of_total [OF R])
  apply (rule case_pair_ok)
  apply (rule py_bind_pair_ok, rule choices1_sentiment_total)
  apply (rule py_bind_pair_ok, rule feedback_of_ok [OF R])
  apply (rule py_bind_pair_ok, rule project_completion_of_total)
  apply blast
  done

lemma py_bind_pair_InrE:
  assumes "py_bind m (\<lambda>(a, g). f a g) = Inr y"
  obtains a g where "m = Inr (a, g)" "f a g = Inr y"
  using assms by (auto simp: py_bind_eq_Inr)

lemma case_pair_InrE:
  assumes "(case p of (a, b) \<Rightarrow> f a b) = Inr y"
  obtains a b where "p = (a, b)" "f a b = Inr y"
  using assms by (cases p) simp

lemma loop_body_row:
  assumes "loop_body R domains states i g0 = Inr (row, g')"
  shows "Participant_ID row = CHR ''P'' # format_03d i"
    and "Domain row \<in> set domains" and "State row \<in> set states"
    and "\<exists>ga gb. randint R 1 3 ga = Inr (Day row, gb)"
    and "\<exists>ga gb. registration_time_of R (Day row) ga = Inr (Registration_Time row, gb)"
    and "\<exists>s ga gb. project_completion_of R s ga = Inr (Project_Completion row, gb)"
  using assms unfolding loop_body_def Let_def
  by (elim py_bind_pair_InrE case_pair_InrE; (auto dest: choice_Inr_mem)[1])+

section \<open>The generated table\<close>

lemma generate_rows_Inr:
  assumes "generate_rows R domains states idxs g data = Inr (out, g')"
  shows "\<exists>rows. out = data @ rows \<and> list_all2 (row_from R domains states) idxs rows"
  using assms
proof (induction idxs arbitrary: g data)
  case Nil
  then show ?case by simp
next
  case (Cons i rest)
  from Cons.prems obtain row g1 where
    b: "loop_body R domains states i g = Inr (row, g1)" and
    r: "generate_rows R domains states rest g1 (data @ [row]) = Inr (out, g')"
    by (auto elim!: py_bind_pair_InrE)
  from Cons.IH [OF r] obtain rows where
    "out = (data @ [row]) @ rows" "list_all2 (row_from R domains states) rest rows"
    by blast
  moreover have "row_from R domains states i row"
    using b by (auto simp: row_from_def)
  ultimately have "out = data @ (row # rows) \<and>
      list_all2 (row_from R domains states) (i # rest) (row # rows)"
    by simp
  then show ?case by blast
qed

lemma generate_rows_total:
  assumes "prng_ok R" "domains \<noteq> []" "states \<noteq> []"
  shows "\<exists>y. generate_rows R domains states idxs g data = Inr y"
proof (induction idxs arbitrary: g data)
  case Nil
  show ?case by simp
next
  case (Cons i rest)
  from loop_body_ok [OF assms, of i g] obtain row g1 where
    "loop_body R domains states i g = Inr (row, g1)" by force
  with Cons.IH [of g1 "data @ [row]"] show ?case by simp
qed

lemma generate_dataset_Inr:
  assumes "generate_dataset R st n domains states seed = Inr (rows, st')"
  shows "list_all2 (row_from R domains states) [1..n] rows"
proof -
  from assms obtain g where
    "generate_rows R domains states [1..n] (rng_seed R seed) [] = Inr (rows, g)"
    unfolding generate_dataset_def Let_def
    by (auto elim!: py_bind_pair_InrE split: if_splits)
  from generate_rows_Inr [OF this] show ?thesis by simp
qed

lemma generate_dataset_total:
  assumes "prng_ok R" "domains \<noteq> []" "states \<noteq> []" "0 \<le> seed" "seed < 4294967296"
  shows "\<exists>rows st'. generate_dataset R st n domains states seed = Inr (rows, st')"
proof -
  from generate_rows_total [OF assms(1-3), of "[1..n]" "rng_seed R seed" "[]"]
  obtain out g where "generate_rows R domains states [1..n] (rng_seed R seed) [] = Inr (out, g)"
    by force
  then show ?thesis using assms(4,5) by (simp add: generate_dataset_def)
qed

lemma lcg_next_range: "0 \<le> lcg_next g \<and> lcg_next g < 2147483648"
  by (simp add: lcg_next_def)

lemma lcg_ok: "prng_ok lcg"
proof -
  have "0 \<le> (of_int (lcg_next g) :: rat) / 2147483648 \<and>
        (of_int (lcg_next g) :: rat) / 2147483648 < 1" for g
  proof -
    have "(of_int (lcg_next g) :: rat) < of_int 2147483648"
      using lcg_next_range [of g] by (simp only: of_int_less_iff)
    moreover have "(0 :: rat) \<le> of_int (lcg_next g)"
      using lcg_next_range [of g] by simp
    ultimately show ?thesis by simp
  qed
  moreover have "nat ((lcg_next g div 65536) mod int n) < n" if "0 < n" for n g
    using that by (simp add: nat_less_iff)
  ultimately show ?thesis by (simp add: prng_ok_def lcg_def)
qed

lemma decimal_value_snoc: "decimal_value (s @ [c]) = 10 * decimal_value s + digit_value c"
  by (simp add: decimal_value_def)

lemma digit_value_digit: "n < 10 \<Longrightarrow> digit_value (char_of (48 + n)) = n"
  by (simp add: digit_value_def)

lemma decimal_value_digits: "decimal_value (digits n) = n"
proof (induction n rule: digits.induct)
  case (1 n)
  show ?case
  proof (cases "n < 10")
    case True
    then show ?thesis
      by (subst digits.simps) (simp add: decimal_value_def digit_value_digit)
  next
    case False
    with "1.IH" show ?thesis
      by (subst digits.simps) (simp add: decimal_value_snoc digit_value_digit)
  qed
qed

lemma decimal_value_zeros: "foldl (\<lambda>a c. 10 * a + digit_value c) 0 (replicate k CHR ''0'') = 0"
  by (induction k) (simp_all add: digit_value_def)

lemma decimal_value_zero_pad: "decimal_value (zero_pad w s) = decimal_value s"
  by (simp add: zero_pad_def decimal_value_def decimal_value_zeros)

lemma format_03d_value: "0 \<le> i \<Longrightarrow> decimal_value (format_03d i) = nat i"
  by (simp add: format_03d_def decimal_value_zero_pad decimal_value_digits)

lemma format_03d_inj: "0 \<le> i \<Longrightarrow> 0 \<le> j \<Longrightarrow> format_03d i = format_03d j \<Longrightarrow> i = j"
  using format_03d_value [of i] format_03d_value [of j] by simp

lemma participant_ids_distinct:
  "distinct (map (\<lambda>i. CHR ''P'' # format_03d i) [1..n])"
proof -
  have "inj_on (\<lambda>i. CHR ''P'' # format_03d i) (set [1..n])"
  proof (rule inj_onI)
    fix i j assume "i \<in> set [1..n]" "j \<in> set [1..n]"
      and "CHR ''P'' # format_03d i = CHR ''P'' # format_03d j"
    then have "0 \<le> i" "0 \<le> j" "format_03d i = format_03d j" by simp_all
    then show "i = j" by (rule format_03d_inj)
  qed
  then show ?thesis by (simp add: distinct_map)
qed

lemma list_all2_map_eq:
  "list_all2 P xs ys \<Longrightarrow> (\<And>x y. P x y \<Longrightarrow> f y = h x) \<Longrightarrow> map f ys = map h xs"
  by (induction rule: list_all2_induct) simp_all

lemma list_all2_set_right:
  "list_all2 P xs ys \<Longrightarrow> y \<in> set ys \<Longrightarrow> \<exists>x \<in> set xs. P x y"
  by (induction rule: list_all2_induct) auto

section \<open>The registration time of a row\<close>

lemma fmul_unit_bounds:
  assumes "0 \<le> u" "u < 1" "0 \<le> c" "fl c = c"
  shows "0 \<le> fmul u c \<and> fmul u c \<le> c"
proof -
  have "u * c \<le> c" using assms(1-3) by (simp add: mult_left_le_one_le)
  moreover have "0 \<le> u * c" using assms(1,3) by simp
  ultimately show ?thesis
    unfolding fmul_def using assms(4) by (auto intro: fl_nonneg fl_le)
qed

lemma random_date_time_bounds:
  assumes R: "prng_ok R" and day: "1 \<le> day" "day \<le> 3"
  shows "0 \<le> fst (random_date_time R 0 ((day - 1) * us_per_day + 86399 * us_per_second) g) \<and>
         fst (random_date_time R 0 ((day - 1) * us_per_day + 86399 * us_per_second) g)
           \<le> day * us_per_day"
proof -
  obtain u1 g1 where u1: "rng_random R g = (u1, g1)" by (cases "rng_random R g")
  obtain u2 g2 where u2: "rng_random R g1 = (u2, g2)" by (cases "rng_random R g1")
  have b1: "0 \<le> u1" "u1 < 1" using prng_ok_random [OF R, of g] by (simp_all add: u1)
  have b2: "0 \<le> u2" "u2 < 1" using prng_ok_random [OF R, of g1] by (simp_all add: u2)
  have days: "timedelta_days ((day - 1) * us_per_day + 86399 * us_per_second - 0) = day - 1"
    by (simp add: timedelta_days_def us_per_day_def us_per_second_def)
  have "day - 1 = 0 \<or> day - 1 = 1 \<or> day - 1 = 2" using day by auto
  then have rep: "fl (of_int (day - 1)) = of_int (day - 1)"
    by (auto simp: fl_1 fl_2)
  have d: "0 \<le> fmul u1 (of_int (day - 1))" "fmul u1 (of_int (day - 1)) \<le> of_int (day - 1)"
    using fmul_unit_bounds [OF b1 _ rep] day by simp_all
  have s: "0 \<le> fmul u2 86400" "fmul u2 86400 \<le> 86400"
    using fmul_unit_bounds [OF b2 _ fl_86400] by simp_all
  have "fst (random_date_time R 0 ((day - 1) * us_per_day + 86399 * us_per_second) g) =
        timedelta_of (fmul u1 (of_int (day - 1))) (fmul u2 86400)"
    unfolding random_date_time_def Let_def days by (simp add: u1 u2)
  with timedelta_of_bounds [OF d s] show ?thesis by (simp add: algebra_simps)
qed

lemma registration_time_of_bounds:
  assumes "prng_ok R" "1 \<le> day" "day \<le> 3" "registration_time_of R day g = Inr (t, g')"
  shows "0 \<le> t \<and> t \<le> day * us_per_day"
proof -
  have "t = fst (random_date_time R 0 ((day - 1) * us_per_day + 86399 * us_per_second) g)"
    using assms(4) by (simp add: registration_time_of_ok [OF assms(2,3)])
  with random_date_time_bounds [OF assms(1-3), of g] show ?thesis by simp
qed

section \<open>A run of the generator\<close>

lemma run0_draws:
  "rng_random lcg 1293799192 = (794471793 / 2147483648, 794471793)"
  "rng_random lcg 794471793 = (551188310 / 2147483648, 551188310)"
  "rng_random lcg 551188310 = (803550167 / 2147483648, 803550167)"
  "rng_random lcg 803550167 = (1772930244 / 2147483648, 1772930244)"
  by (simp_all add: lcg_def lcg_next_def)

lemma run0_floats:
  "fl (794471793 / 2147483648) = 794471793 / 2147483648"
  "fl (186026054625 / 8388608) = 186026054625 / 8388608"
  "fl (4431515625 / 131072) = 4431515625 / 131072"
  "fl (102377 / 131072) = 102377 / 131072"
  "fl (8379194691796875 / 262144) = 8379194691796875 / 262144"
  "fl (450397 / 262144) = 450397 / 262144"
  using fl_dyadic [of 794471793 31] fl_dyadic [of 186026054625 23] fl_dyadic [of 4431515625 17]
    fl_dyadic [of 102377 17] fl_dyadic [of 8379194691796875 18] fl_dyadic [of 450397 18]
  by simp_all

lemma run0_floors:
  "\<lfloor>186026054625 / 8388608 :: rat\<rfloor> = 22176"
  "\<lfloor>4431515625 / 131072 :: rat\<rfloor> = 33809"
  "\<lfloor>794471793 / 2147483648 :: rat\<rfloor> = 0"
  "\<lfloor>8379194691796875 / 262144 :: rat\<rfloor> = 31964091078"
  "\<lfloor>450397 / 262144 :: rat\<rfloor> = 1"
  by (rule floor_unique, simp, simp)+

lemma run0_accum_seconds:
  "accum (0, 0) (186026054625 / 8388608) us_per_second = (22176033809, 102377 / 131072)"
  by (simp add: accum_def Let_def py_int_def fmul_def fadd_def us_per_second_def run0_floats
      run0_floors)

lemma run0_accum_days:
  "accum (22176033809, 102377 / 131072) (794471793 / 2147483648) us_per_day =
     (54140124887, 450397 / 262144)"
  by (simp add: accum_def Let_def py_int_def fmul_def fadd_def us_per_day_def run0_floats
      run0_floors)

lemma run0_timedelta:
  "timedelta_of (794471793 / 2147483648) (186026054625 / 8388608) = 54140124889"
  by (simp add: timedelta_of_def run0_accum_seconds run0_accum_days round_half_even_def
      run0_floors)

lemma run0_registration_time:
  "registration_time_of lcg 2 1293799192 = Inr (54140124889, 551188310)"
  by (simp add: registration_time_of_ok random_date_time_def run0_draws timedelta_days_def
      us_per_day_def us_per_second_def fmul_def run0_floats run0_timedelta)

lemma run0_first_name: "choice lcg first_names 0 = Inr (''James'', 12345)"
  by code_simp

lemma run0_last_name: "choice lcg last_names 12345 = Inr (''Jackson'', 1406932606)"
  by code_simp

lemma run0_age: "randint lcg 18 35 1406932606 = Inr (34, 654583775)"
  by code_simp

lemma run0_gender:
  "choice lcg [''Male'', ''Female'', ''Other''] 654583775 = Inr (''Female'', 1449466924)"
  by code_simp

lemma run0_college: "choice lcg colleges 1449466924 = Inr (''NIT Surathkal'', 229283573)"
  by code_simp

lemma run0_state: "choice lcg [''Delhi'', ''Goa''] 229283573 = Inr (''Goa'', 1109335178)"
  by code_simp

lemma run0_domain: "choice lcg [''AI/ML'', ''Quantum''] 1109335178 = Inr (''Quantum'', 1051550459)"
  by code_simp

lemma run0_day: "randint lcg 1 3 1051550459 = Inr (2, 1293799192)"
  by code_simp

lemma run0_uniform: "uniform lcg 4 10 551188310 = (6705617797 / 1073741824, 803550167)"
proof -
  have f: "fl (2410650501 / 1073741824) = 2410650501 / 1073741824"
    "fl (6705617797 / 1073741824) = 6705617797 / 1073741824"
    using fl_dyadic [of 2410650501 30] fl_dyadic [of 6705617797 30] by simp_all
  show ?thesis by (simp add: uniform_def run0_draws fadd_def fmul_def f)
qed

lemma run0_time_spent:
  "py_round1 (6705617797 / 1073741824) = 6980579422424269 / 1125899906842624"
proof -
  have "\<lfloor>33528088985 / 536870912 :: rat\<rfloor> = 62" by (rule floor_unique) simp_all
  then have r: "round_half_even (6705617797 / 1073741824 * 10) = 62"
    by (simp add: round_half_even_def)
  have "\<lfloor>34902897112121344 / 5 :: rat\<rfloor> = 6980579422424268" by (rule floor_unique) simp_all
  then have "fl (31 / 5) = 6980579422424269 / 1125899906842624"
    using fl_pos_eq [of 2 "31 / 5"] by (simp add: round_half_even_def)
  then show ?thesis unfolding py_round1_def r by simp
qed

lemma run0_sentiment_float:
  "fl (3992283993116140832607951 / 4835703278458516698824704) =
     7436208414130175 / 9007199254740992"
proof -
  have "\<lfloor>3992283993116140832607951 / 536870912 :: rat\<rfloor> = 7436208414130175"
    by (rule floor_unique) simp_all
  then show ?thesis
    using fl_pos_eq [of "- 1" "3992283993116140832607951 / 4835703278458516698824704"]
    by (simp add: round_half_even_def)
qed

lemma run0_sentiment:
  "choices1 lcg [''positive'', ''neutral'', ''negative'']
     [fl (6 / 10), fl (3 / 10), fl (1 / 10)] 803550167 = Inr (''neutral'', 1772930244)"
proof -
  define cw where "cw = accumulate [fl (6 / 10), fl (3 / 10), fl (1 / 10)]"
  have cw: "cw = [5404319552844595 / 9007199254740992, 8106479329266892 / 9007199254740992,
      9007199254740991 / 9007199254740992]"
    unfolding cw_def by (rule sentiment_weights)
  have len: "length cw = 3" by (simp add: cw)
  have tot: "fadd (last cw) 0 = 9007199254740991 / 9007199254740992"
    unfolding cw using fl_dyadic [of 9007199254740991 53] by (simp add: fadd_def)
  have x: "fmul (443232561 / 536870912) (9007199254740991 / 9007199254740992) =
      7436208414130175 / 9007199254740992"
    by (simp add: fmul_def run0_sentiment_float)
  have b: "bisect_right cw (7436208414130175 / 9007199254740992) 0 (Suc (Suc 0)) = Suc 0"
    unfolding cw
    by (subst bisect_right.simps, simp add: Let_def)
       (subst bisect_right.simps, simp add: Let_def, subst bisect_right.simps, simp)
  show ?thesis
    unfolding choices1_def Let_def cw_def [symmetric]
    by (simp add: len tot run0_draws x b)
qed

lemma run0_feedback:
  "feedback_of lcg ''neutral'' ''Quantum'' 1772930244 =
     Inr (''Moderate learning experience in Quantum. Not sure if I'll participate again.'',
          370913197)"
  by code_simp

lemma run0_project_completion:
  "project_completion_of lcg ''neutral'' 370913197 = Inr (60, 639546082)"
  by code_simp

lemma format_03d_1: "format_03d 1 = ''001''"
  by code_simp

lemma run0_loop_body:
  "loop_body lcg [''AI/ML'', ''Quantum''] [''Delhi'', ''Goa''] 1 0 = Inr (run0_row, 639546082)"
  unfolding loop_body_def Let_def
  by (simp only: run0_first_name run0_last_name run0_age run0_gender run0_college run0_state
      run0_domain run0_day run0_registration_time run0_uniform run0_sentiment run0_feedback
      run0_project_completion run0_time_spent py_bind_Inr prod.case format_03d_1)
     (simp add: run0_row_def)

lemma run0_generate_dataset:
  "generate_dataset lcg st 1 [''AI/ML'', ''Quantum''] [''Delhi'', ''Goa''] 0 =
     Inr ([run0_row], \<lparr>random_state = 639546082, np_random_seed = Some 0\<rparr>)"
proof -
  have "rng_seed lcg 0 = 0" by (simp add: lcg_def)
  then show ?thesis
    by (simp add: generate_dataset_def run0_loop_body py_state_all_updated)
qed

section \<open>Failing and succeeding iterations\<close>

lemma loop_body_sentiment:
  assumes "loop_body R domains states i g0 = Inr (row, g')"
  shows "\<exists>s g ga gb gc.
           choices1 R [''positive'', ''neutral'', ''negative'']
             [fl (6 / 10), fl (3 / 10), fl (1 / 10)] g = Inr (s, ga) \<and>
           feedback_of R s (Domain row) ga = Inr (Feedback row, gb) \<and>
           project_completion_of R s gb = Inr (Project_Completion row, gc)"
  using assms unfolding loop_body_def Let_def
  by (elim py_bind_pair_InrE case_pair_InrE) (clarsimp, blast)

lemma py_bind_pair_fail:
  assumes "\<And>e'. m = Inl e' \<Longrightarrow> e' = e"
    and "\<And>a g. m = Inr (a, g) \<Longrightarrow> f a g = Inl e"
  shows "py_bind m (\<lambda>(a, g). f a g) = Inl e"
  using assms by (cases m) auto

lemma randint_no_error: "a \<le> b \<Longrightarrow> randint R a b g = Inl e' \<Longrightarrow> e' = e"
  by (simp add: randint_ok)

lemma loop_body_fails:
  assumes "domains = [] \<or> states = []"
  shows "loop_body R domains states i g = Inl IndexError"
  unfolding loop_body_def Let_def
  apply (rule py_bind_pair_fail, erule choice_error)
  apply (rule py_bind_pair_fail, erule choice_error)
  apply (rule py_bind_pair_fail, erule randint_no_error [rotated], simp)
  apply (rule py_bind_pair_fail, erule choice_error)
  apply (rule py_bind_pair_fail, erule choice_error)
  apply (rule py_bind_pair_fail, erule choice_error)
  apply (rule py_bind_pair_fail, erule choice_error)
  using assms apply (auto simp: choice_empty)
  done

lemma generate_rows_fails:
  assumes "domains = [] \<or> states = []"
  shows "generate_rows R domains states (i # rest) g data = Inl IndexError"
  by (simp add: loop_body_fails [OF assms])

section \<open>Properties of the generated table\<close>

text \<open>
  Claim C3. With a count of at least 1 (non-empty domains and states, a seed NumPy accepts)
  the generator returns a table with exactly \<open>count\<close> rows whose \<open>Participant_ID\<close>
  column is \<open>P\<close> followed by the zero-padded index, for the indices 1 to \<open>count\<close> in
  order, without duplicates.
\<close>

theorem generated_ids:
  assumes "prng_ok R" "domains \<noteq> []" "states \<noteq> []" "1 \<le> count"
    and "0 \<le> seed" "seed < 4294967296"
  shows "\<exists>rows st'.
           generate_dataset R st count domains states seed = Inr (rows, st') \<and>
           int (length rows) = count \<and>
           map Participant_ID rows = map (\<lambda>i. CHR ''P'' # format_03d i) [1..count] \<and>
           distinct (map Participant_ID rows)"
proof -
  from generate_dataset_total [OF assms(1-3) assms(5,6)] obtain rows st' where
    r: "generate_dataset R st count domains states seed = Inr (rows, st')" by blast
  note l = generate_dataset_Inr [OF r]
  have len: "int (length rows) = count"
    using list_all2_lengthD [OF l] assms(4) by simp
  have ids: "map Participant_ID rows = map (\<lambda>i. CHR ''P'' # format_03d i) [1..count]"
    using l by (rule list_all2_map_eq) (auto simp: row_from_def dest: loop_body_row(1))
  have "distinct (map Participant_ID rows)"
    unfolding ids by (rule participant_ids_distinct)
  with r len ids show ?thesis by blast
qed

theorem generated_ids_witness:
  "prng_ok lcg \<and> [''AI/ML'', ''IoT''] \<noteq> [] \<and> [''Delhi'', ''Goa''] \<noteq> [] \<and> (1::int) \<le> 2 \<and>
   (0::int) \<le> 42 \<and> (42::int) < 4294967296 \<and>
   (\<exists>rows st'.
      generate_dataset lcg \<lparr>random_state = 0, np_random_seed = None\<rparr> 2
        [''AI/ML'', ''IoT''] [''Delhi'', ''Goa''] 42 = Inr (rows, st') \<and>
      int (length rows) = 2 \<and>
      map Participant_ID rows = [''P001'', ''P002''] \<and>
      distinct (map Participant_ID rows))"
proof -
  have ids: "map (\<lambda>i. CHR ''P'' # format_03d i) [1..2] = [''P001'', ''P002'']"
    by code_simp
  have d: "[''AI/ML'', ''IoT''] \<noteq> []" and s: "[''Delhi'', ''Goa''] \<noteq> []" and c: "(1::int) \<le> 2"
    and s0: "(0::int) \<le> 42" and s1: "(42::int) < 4294967296"
    by simp_all
  from generated_ids [OF lcg_ok d s c s0 s1, of "\<lparr>random_state = 0, np_random_seed = None\<rparr>"]
  show ?thesis unfolding ids using lcg_ok by simp
qed

text \<open>
  Claim C4. With non-empty domains and states the generator returns a table, and every
  row's domain is one of the given domains and every row's state one of the given states.
\<close>

theorem domain_state_closure:
  assumes "prng_ok R" "domains \<noteq> []" "states \<noteq> []"
    and "0 \<le> seed" "seed < 4294967296"
  shows "\<exists>rows st'.
           generate_dataset R st count domains states seed = Inr (rows, st') \<and>
           (\<forall>row \<in> set rows. Domain row \<in> set domains \<and> State row \<in> set states)"
proof -
  from generate_dataset_total [OF assms] obtain rows st' where
    r: "generate_dataset R st count domains states seed = Inr (rows, st')" by blast
  note l = generate_dataset_Inr [OF r]
  have "Domain row \<in> set domains \<and> State row \<in> set states" if "row \<in> set rows" for row
  proof -
    from list_all2_set_right [OF l that] obtain i where "row_from R domains states i row"
      by blast
    then show ?thesis by (auto simp: row_from_def dest: loop_body_row(2,3))
  qed
  with r show ?thesis by blast
qed

theorem domain_state_closure_witness:
  "prng_ok lcg \<and> [''AI/ML'', ''IoT''] \<noteq> [] \<and> [''Delhi'', ''Goa''] \<noteq> [] \<and>
   (0::int) \<le> 42 \<and> (42::int) < 4294967296 \<and>
   (\<exists>rows st'.
      generate_dataset lcg \<lparr>random_state = 0, np_random_seed = None\<rparr> 3
        [''AI/ML'', ''IoT''] [''Delhi'', ''Goa''] 42 = Inr (rows, st') \<and>
      (\<forall>row \<in> set rows. Domain row \<in> {''AI/ML'', ''IoT''} \<and> State row \<in> {''Delhi'', ''Goa''}))"
proof -
  have d: "[''AI/ML'', ''IoT''] \<noteq> []" and s: "[''Delhi'', ''Goa''] \<noteq> []"
    and s0: "(0::int) \<le> 42" and s1: "(42::int) < 4294967296"
    by simp_all
  from domain_state_closure [OF lcg_ok d s s0 s1, of "\<lparr>random_state = 0, np_random_seed = None\<rparr>" 3]
  show ?thesis using lcg_ok by simp
qed


lemma day_of_row:
  assumes "prng_ok R" "row_from R domains states i row"
  shows "1 \<le> Day row \<and> Day row \<le> 3 \<and> 0 \<le> Registration_Time row \<and>
         Registration_Time row \<le> Day row * us_per_day"
proof -
  from assms(2) obtain g g' where b: "loop_body R domains states i g = Inr (row, g')"
    by (auto simp: row_from_def)
  from loop_body_row(4) [OF b] obtain ga gb where "randint R 1 3 ga = Inr (Day row, gb)"
    by blast
  from randint_range [OF assms(1) this] have d: "1 \<le> Day row" "Day row \<le> 3" by simp_all
  from loop_body_row(5) [OF b] obtain gc gd where
    "registration_time_of R (Day row) gc = Inr (Registration_Time row, gd)" by blast
  from registration_time_of_bounds [OF assms(1) d this] d show ?thesis by simp
qed

text \<open>
  Claim C1, as amended. For every row of a generated table the day lies in 1 to 3 and the
  registration time lies between the event epoch (2023-03-15 00:00:00, whatever the row's
  day) and 24 hours after 00:00:00 of the row's own day. Times are microseconds since the
  event epoch.
\<close>

theorem registration_time_window:
  assumes "prng_ok R"
    and "generate_dataset R st count domains states seed = Inr (rows, st')"
    and "row \<in> set rows"
  shows "1 \<le> Day row \<and> Day row \<le> 3 \<and>
         0 \<le> Registration_Time row \<and> Registration_Time row \<le> Day row * us_per_day"
proof -
  from list_all2_set_right [OF generate_dataset_Inr [OF assms(2)] assms(3)]
  obtain i where "row_from R domains states i row" by blast
  with assms(1) show ?thesis by (rule day_of_row)
qed

theorem registration_time_window_witness:
  "prng_ok lcg \<and>
   generate_dataset lcg \<lparr>random_state = 7, np_random_seed = None\<rparr> 1
     [''AI/ML'', ''Quantum''] [''Delhi'', ''Goa''] 0 =
     Inr ([run0_row], \<lparr>random_state = 639546082, np_random_seed = Some 0\<rparr>) \<and>
   run0_row \<in> set [run0_row] \<and>
   1 \<le> Day run0_row \<and> Day run0_row \<le> 3 \<and>
   0 \<le> Registration_Time run0_row \<and> Registration_Time run0_row \<le> Day run0_row * us_per_day"
proof -
  have m: "run0_row \<in> set [run0_row]" by simp
  from registration_time_window [OF lcg_ok run0_generate_dataset m] lcg_ok
    run0_generate_dataset [of "\<lparr>random_state = 7, np_random_seed = None\<rparr>"] m
  show ?thesis by blast
qed

text \<open>
  Claim C1 as stated fails: the window of every day starts at the event epoch, not at the
  start of that day. The row below has day 2 and registers at 15:02:20.124889 on 2023-03-15,
  before day 2 begins.
\<close>

theorem registration_before_own_day_counterexample:
  "generate_dataset lcg \<lparr>random_state = 7, np_random_seed = None\<rparr> 1
     [''AI/ML'', ''Quantum''] [''Delhi'', ''Goa''] 0 =
     Inr ([run0_row], \<lparr>random_state = 639546082, np_random_seed = Some 0\<rparr>) \<and>
   Day run0_row = 2 \<and> Registration_Time run0_row = 54140124889 \<and>
   Registration_Time run0_row < (Day run0_row - 1) * us_per_day"
  by (simp add: run0_generate_dataset) (simp add: run0_row_def us_per_day_def)

text \<open>
  Claim C6. Every row of a generated table comes with its drawn sentiment label, the one
  its feedback was built from; if the label is negative the completion percentage is the
  \<^verbatim>\<open>randint(30, 85)\<close> draw and lies in 30 to 85, otherwise it is the
  \<^verbatim>\<open>randint(60, 100)\<close> draw and lies in 60 to 100; so it always lies in 30 to 100.
\<close>

theorem project_completion_ranges:
  assumes "prng_ok R"
    and "generate_dataset R st count domains states seed = Inr (rows, st')"
    and "row \<in> set rows"
  shows "\<exists>sentiment g ga gb gc.
           choices1 R [''positive'', ''neutral'', ''negative'']
             [fl (6 / 10), fl (3 / 10), fl (1 / 10)] g = Inr (sentiment, ga) \<and>
           feedback_of R sentiment (Domain row) ga = Inr (Feedback row, gb) \<and>
           project_completion_of R sentiment gb = Inr (Project_Completion row, gc) \<and>
           (sentiment = ''negative'' \<longrightarrow>
              Project_Completion row = 30 + int (fst (rng_randbelow R 56 gb)) \<and>
              30 \<le> Project_Completion row \<and> Project_Completion row \<le> 85) \<and>
           (sentiment \<noteq> ''negative'' \<longrightarrow>
              Project_Completion row = 60 + int (fst (rng_randbelow R 41 gb)) \<and>
              60 \<le> Project_Completion row \<and> Project_Completion row \<le> 100) \<and>
           30 \<le> Project_Completion row \<and> Project_Completion row \<le> 100"
proof -
  from list_all2_set_right [OF generate_dataset_Inr [OF assms(2)] assms(3)]
  obtain i g0 g' where "loop_body R domains states i g0 = Inr (row, g')"
    by (auto simp: row_from_def)
  from loop_body_sentiment [OF this] obtain s g ga gb gc where
    c: "choices1 R [''positive'', ''neutral'', ''negative'']
          [fl (6 / 10), fl (3 / 10), fl (1 / 10)] g = Inr (s, ga)"
    and f: "feedback_of R s (Domain row) ga = Inr (Feedback row, gb)"
    and p: "project_completion_of R s gb = Inr (Project_Completion row, gc)"
    by blast
  note r = project_completion_of_range [OF assms(1) p]
  have v: "(s = ''negative'' \<longrightarrow> Project_Completion row = 30 + int (fst (rng_randbelow R 56 gb))) \<and>
    (s \<noteq> ''negative'' \<longrightarrow> Project_Completion row = 60 + int (fst (rng_randbelow R 41 gb)))"
    using p by (auto simp: project_completion_of_ok split: if_splits)
  have "30 \<le> Project_Completion row \<and> Project_Completion row \<le> 100"
    using r by (cases "s = ''negative''") auto
  with c f p r v show ?thesis by blast
qed

theorem project_completion_ranges_witness:
  "prng_ok lcg \<and>
   generate_dataset lcg \<lparr>random_state = 7, np_random_seed = None\<rparr> 1
     [''AI/ML'', ''Quantum''] [''Delhi'', ''Goa''] 0 =
     Inr ([run0_row], \<lparr>random_state = 639546082, np_random_seed = Some 0\<rparr>) \<and>
   run0_row \<in> set [run0_row] \<and>
   project_completion_of lcg ''neutral'' 370913197 = Inr (Project_Completion run0_row, 639546082) \<and>
   ''neutral'' \<noteq> ''negative'' \<and>
   60 \<le> Project_Completion run0_row \<and> Project_Completion run0_row \<le> 100"
proof -
  have m: "run0_row \<in> set [run0_row]" by simp
  have p: "project_completion_of lcg ''neutral'' 370913197 =
      Inr (Project_Completion run0_row, 639546082)"
    by (simp add: run0_project_completion run0_row_def)
  from project_completion_ranges [OF lcg_ok run0_generate_dataset m]
  have "30 \<le> Project_Completion run0_row \<and> Project_Completion run0_row \<le> 100" by blast
  moreover have "60 \<le> Project_Completion run0_row" by (simp add: run0_row_def)
  ultimately show ?thesis
    using lcg_ok run0_generate_dataset [of "\<lparr>random_state = 7, np_random_seed = None\<rparr>"] m p
    by simp
qed




section \<open>The sepia transform against the exact sums\<close>

lemma round_half_even_error: "\<bar>of_int (round_half_even y) - y\<bar> \<le> 1 / 2"
proof -
  have f: "of_int \<lfloor>y\<rfloor> \<le> y" "y < of_int \<lfloor>y\<rfloor> + 1" by linarith+
  have "round_half_even y = \<lfloor>y\<rfloor> \<and> y - of_int \<lfloor>y\<rfloor> \<le> 1 / 2 \<or>
        round_half_even y = \<lfloor>y\<rfloor> + 1 \<and> 1 / 2 \<le> y - of_int \<lfloor>y\<rfloor>"
    by (auto simp: round_half_even_def Let_def)
  then show ?thesis
  proof
    assume a: "round_half_even y = \<lfloor>y\<rfloor> \<and> y - of_int \<lfloor>y\<rfloor> \<le> 1 / 2"
    then have "\<bar>of_int (round_half_even y) - y\<bar> = y - of_int \<lfloor>y\<rfloor>" using f by simp
    with a show ?thesis by simp
  next
    assume a: "round_half_even y = \<lfloor>y\<rfloor> + 1 \<and> 1 / 2 \<le> y - of_int \<lfloor>y\<rfloor>"
    then have "\<bar>of_int (round_half_even y) - y\<bar> = of_int \<lfloor>y\<rfloor> + 1 - y" using f by simp
    with a show ?thesis by simp
  qed
qed

lemma fl_abs_error:
  assumes "0 \<le> x" "x \<le> 2 powi k"
  shows "\<bar>fl x - x\<bar> \<le> 2 powi (k - 53)"
proof (cases "x = 0")
  case True
  then show ?thesis by simp
next
  case False
  with assms(1) have x: "0 < x" by simp
  define e where "e = float_exponent x"
  note b = float_exponent_bounds [OF x, folded e_def]
  have ek: "e \<le> k"
  proof (rule ccontr)
    assume "\<not> e \<le> k"
    then have "(2::rat) powi (k + 1) \<le> 2 powi e" by (intro power_int_increasing) simp_all
    moreover have "(2::rat) powi k < 2 powi (k + 1)" by (intro power_int_strict_increasing) simp_all
    ultimately show False using b assms(2) by simp
  qed
  let ?ulp = "(2::rat) powi (e - 52)"
  have ulp: "0 < ?ulp" by simp
  have "fl x - x = (of_int (round_half_even (x / ?ulp)) - x / ?ulp) * ?ulp"
    using fl_pos_eq [of e x] b by (simp add: algebra_simps)
  then have "\<bar>fl x - x\<bar> = \<bar>of_int (round_half_even (x / ?ulp)) - x / ?ulp\<bar> * ?ulp"
    by (simp add: abs_mult)
  also have "\<dots> \<le> 1 / 2 * ?ulp"
    using round_half_even_error [of "x / ?ulp"] by (intro mult_right_mono) simp_all
  also have "\<dots> = 2 powi (e - 53)"
    by (simp add: power_int_diff)
  also have "\<dots> \<le> 2 powi (k - 53)"
    using ek by (intro power_int_increasing) simp_all
  finally show ?thesis .
qed

lemma fl_255: "fl 255 = 255"
  using fl_dyadic [of 255 0] by simp

lemma fl_510: "fl 510 = 510"
  using fl_dyadic [of 510 0] by simp

lemma product_error:
  assumes c: "0 \<le> c" "c \<le> 1" and x: "0 \<le> x" "x \<le> 255"
  shows "0 \<le> fmul (fl c) x \<and> fmul (fl c) x \<le> 255 \<and> \<bar>fmul (fl c) x - c * x\<bar> \<le> 2 powi (- 44)"
proof -
  have c0: "0 \<le> fl c" using c(1) by (rule fl_nonneg)
  have c1: "fl c \<le> 1" using fl_le [OF c fl_1] .
  have "c \<le> 2 powi 0" using c(2) by simp
  from fl_abs_error [OF c(1) this] have ce: "\<bar>fl c - c\<bar> \<le> 2 powi (- 53)" by simp
  have p0: "0 \<le> fl c * x" using c0 x(1) by simp
  have "fl c * x \<le> 1 * 255" using c0 c1 x by (intro mult_mono) simp_all
  then have p1: "fl c * x \<le> 255" by simp
  then have "fl c * x \<le> 2 powi 8" by simp
  from fl_abs_error [OF p0 this] have pe: "\<bar>fmul (fl c) x - fl c * x\<bar> \<le> 2 powi (- 45)"
    by (simp add: fmul_def)
  have "\<bar>fl c * x - c * x\<bar> = \<bar>fl c - c\<bar> * x" using x(1) by (simp add: abs_mult flip: left_diff_distrib)
  also have "\<dots> \<le> 2 powi (- 53) * 255" using ce x by (intro mult_mono) simp_all
  also have "\<dots> \<le> 2 powi (- 45)" by simp
  finally have "\<bar>fl c * x - c * x\<bar> \<le> 2 powi (- 45)" .
  with pe have "\<bar>fmul (fl c) x - c * x\<bar> \<le> 2 powi (- 45) + 2 powi (- 45)" by linarith
  also have "\<dots> = 2 powi (- 44)" by simp
  finally have e: "\<bar>fmul (fl c) x - c * x\<bar> \<le> 2 powi (- 44)" .
  have "0 \<le> fmul (fl c) x" using c0 x(1) by (rule fmul_nonneg)
  moreover have "fmul (fl c) x \<le> 255" unfolding fmul_def using p0 p1 fl_255 by (rule fl_le)
  ultimately show ?thesis using e by simp
qed

lemma weighted_sum_error:
  assumes "0 \<le> c1" "c1 \<le> 1" "0 \<le> c2" "c2 \<le> 1" "0 \<le> c3" "c3 \<le> 1"
    and "0 \<le> x" "x \<le> 255" "0 \<le> y" "y \<le> 255" "0 \<le> z" "z \<le> 255"
  shows "\<bar>fadd (fadd (fmul (fl c1) x) (fmul (fl c2) y)) (fmul (fl c3) z)
           - (c1 * x + c2 * y + c3 * z)\<bar> \<le> 2 powi (- 41)"
proof -
  define p1 where "p1 = fmul (fl c1) x"
  define p2 where "p2 = fmul (fl c2) y"
  define p3 where "p3 = fmul (fl c3) z"
  have 1: "0 \<le> p1" "p1 \<le> 255" "\<bar>p1 - c1 * x\<bar> \<le> 2 powi (- 44)"
    using product_error [OF assms(1,2,7,8)] by (simp_all add: p1_def)
  have 2: "0 \<le> p2" "p2 \<le> 255" "\<bar>p2 - c2 * y\<bar> \<le> 2 powi (- 44)"
    using product_error [OF assms(3,4,9,10)] by (simp_all add: p2_def)
  have 3: "0 \<le> p3" "p3 \<le> 255" "\<bar>p3 - c3 * z\<bar> \<le> 2 powi (- 44)"
    using product_error [OF assms(5,6,11,12)] by (simp_all add: p3_def)
  define s1 where "s1 = fadd p1 p2"
  have a0: "0 \<le> p1 + p2" using 1 2 by simp
  have a1: "p1 + p2 \<le> 510" using 1 2 by simp
  then have "p1 + p2 \<le> 2 powi 9" by simp
  from fl_abs_error [OF a0 this] have s1e: "\<bar>s1 - (p1 + p2)\<bar> \<le> 2 powi (- 44)"
    by (simp add: s1_def fadd_def)
  have s10: "0 \<le> s1" unfolding s1_def using 1(1) 2(1) by (rule fadd_nonneg)
  have s11: "s1 \<le> 510" unfolding s1_def fadd_def using a0 a1 fl_510 by (rule fl_le)
  define s2 where "s2 = fadd s1 p3"
  have b0: "0 \<le> s1 + p3" using s10 3 by simp
  have "s1 + p3 \<le> 765" using s11 3 by simp
  then have "s1 + p3 \<le> 2 powi 10" by simp
  from fl_abs_error [OF b0 this] have s2e: "\<bar>s2 - (s1 + p3)\<bar> \<le> 2 powi (- 43)"
    by (simp add: s2_def fadd_def)
  have "\<bar>s2 - (c1 * x + c2 * y + c3 * z)\<bar> \<le>
      2 powi (- 43) + 2 powi (- 44) + 2 powi (- 44) + 2 powi (- 44) + 2 powi (- 44)"
    using s2e s1e 1(3) 2(3) 3(3) by linarith
  also have "\<dots> \<le> 2 powi (- 41)" by simp
  finally show ?thesis by (simp add: s2_def s1_def p1_def p2_def p3_def)
qed

lemma floor_near_thousandth:
  fixes F :: rat
  assumes "\<bar>F - of_int N / 1000\<bar> \<le> 2 powi (- 41)"
  shows "\<lfloor>F\<rfloor> = \<lfloor>of_int N / 1000 :: rat\<rfloor> \<or>
         (1000 dvd N \<and> \<lfloor>F\<rfloor> = \<lfloor>of_int N / 1000 :: rat\<rfloor> - 1)"
proof -
  define q where "q = N div 1000"
  define m where "m = N mod 1000"
  have N: "N = 1000 * q + m" by (simp add: q_def m_def)
  have m: "0 \<le> m" "m < 1000" by (simp_all add: m_def)
  define S :: rat where "S = of_int N / 1000"
  have S: "S = of_int q + of_int m / 1000" by (simp add: S_def N)
  have eps: "(2::rat) powi (- 41) \<le> 1 / 2000" by simp
  have F: "S - 1 / 2000 \<le> F" "F \<le> S + 1 / 2000"
    using assms eps unfolding S_def by linarith+
  have m0: "(0::rat) \<le> of_int m" using m(1) by simp
  have "m \<le> 999" using m(2) by simp
  then have "(of_int m :: rat) \<le> of_int 999" by (simp only: of_int_le_iff)
  then have m1: "(of_int m :: rat) \<le> 999" by simp
  have fS: "\<lfloor>S\<rfloor> = q"
    by (rule floor_unique) (use m0 m1 in \<open>simp_all add: S\<close>)
  show ?thesis
  proof (cases "m = 0")
    case True
    then have dvd: "1000 dvd N" by (simp add: m_def dvd_eq_mod_eq_0)
    have S0: "S = of_int q" using True by (simp add: S)
    show ?thesis
    proof (cases "of_int q \<le> F")
      case True
      have "\<lfloor>F\<rfloor> = q" by (rule floor_unique) (use True F S0 in simp_all)
      then show ?thesis using fS by (simp add: S_def)
    next
      case False
      have "\<lfloor>F\<rfloor> = q - 1" by (rule floor_unique) (use False F S0 in simp_all)
      then show ?thesis using fS dvd by (simp add: S_def)
    qed
  next
    case False
    with m(1) have "1 \<le> m" by simp
    then have "(of_int 1 :: rat) \<le> of_int m" by (simp only: of_int_le_iff)
    then have m2: "(1::rat) \<le> of_int m" by simp
    have "\<lfloor>F\<rfloor> = q" by (rule floor_unique) (use F m1 m2 in \<open>simp_all add: S\<close>)
    then show ?thesis using fS by (simp add: S_def)
  qed
qed

lemma channel_le_255: "(of_int (uint (w :: 8 word)) :: rat) \<le> 255"
proof -
  have "uint w < 2 ^ 8" using uint_lt2p [of w] by simp
  then have "uint w \<le> 255" by simp
  then have "(of_int (uint w) :: rat) \<le> of_int 255" by (simp only: of_int_le_iff)
  then show ?thesis by simp
qed

lemma sepia_channel_exact:
  fixes r g b :: "8 word"
  assumes "0 \<le> A" "A \<le> 1000" "0 \<le> B" "B \<le> 1000" "0 \<le> C" "C \<le> 1000"
  defines "F \<equiv> fadd (fadd (fmul (fl (of_int A / 1000)) (of_int (uint r)))
                           (fmul (fl (of_int B / 1000)) (of_int (uint g))))
                     (fmul (fl (of_int C / 1000)) (of_int (uint b)))"
  defines "S \<equiv> exact_sepia_sum A B C (r, g, b)"
  shows "min 255 \<lfloor>F\<rfloor> = min 255 \<lfloor>S\<rfloor> \<or> (S \<in> \<int> \<and> min 255 \<lfloor>F\<rfloor> = min 255 (\<lfloor>S\<rfloor> - 1))"
proof -
  have c: "(0::rat) \<le> of_int A / 1000" "(of_int A :: rat) / 1000 \<le> 1"
    "(0::rat) \<le> of_int B / 1000" "(of_int B :: rat) / 1000 \<le> 1"
    "(0::rat) \<le> of_int C / 1000" "(of_int C :: rat) / 1000 \<le> 1"
    using assms(1-6) by simp_all
  have S: "S = of_int (A * uint r + B * uint g + C * uint b) / 1000"
    by (simp add: S_def exact_sepia_sum_def)
  have "S = of_int A / 1000 * of_int (uint r) + of_int B / 1000 * of_int (uint g)
      + of_int C / 1000 * of_int (uint b)"
    by (simp add: S add_divide_distrib)
  with weighted_sum_error [OF c channel_nonneg channel_le_255 channel_nonneg channel_le_255
      channel_nonneg channel_le_255, of r g b]
  have "\<bar>F - S\<bar> \<le> 2 powi (- 41)" by (simp add: F_def)
  from floor_near_thousandth [OF this [unfolded S]]
  have "\<lfloor>F\<rfloor> = \<lfloor>S\<rfloor> \<or> (1000 dvd (A * uint r + B * uint g + C * uint b) \<and> \<lfloor>F\<rfloor> = \<lfloor>S\<rfloor> - 1)"
    by (simp add: S)
  moreover have "S \<in> \<int>" if "1000 dvd (A * uint r + B * uint g + C * uint b)"
  proof -
    from that obtain k where "A * uint r + B * uint g + C * uint b = 1000 * k" ..
    then have "S = of_int k" by (simp add: S)
    then show ?thesis by simp
  qed
  ultimately show ?thesis by auto
qed

text \<open>
  Claim C10, as amended. For every RGB pixel, each output channel of the sepia transform is
  \<open>min 255 \<lfloor>S\<rfloor>\<close> for the exact weighted sum \<open>S\<close> of its channel, except that it may be
  \<open>min 255 (\<lfloor>S\<rfloor> - 1)\<close> when \<open>S\<close> is an integer (the code evaluates the sum in
  binary64 arithmetic, where it can fall just below that integer); every output channel
  lies in \<open>[0, 255]\<close>.
\<close>

theorem sepia_pixel_channels:
  "(fst (sepia_pixel (r, g, b)) = min 255 \<lfloor>exact_sepia_sum 393 769 189 (r, g, b)\<rfloor> \<or>
      exact_sepia_sum 393 769 189 (r, g, b) \<in> \<int> \<and>
      fst (sepia_pixel (r, g, b)) = min 255 (\<lfloor>exact_sepia_sum 393 769 189 (r, g, b)\<rfloor> - 1)) \<and>
   (fst (snd (sepia_pixel (r, g, b))) = min 255 \<lfloor>exact_sepia_sum 349 686 168 (r, g, b)\<rfloor> \<or>
      exact_sepia_sum 349 686 168 (r, g, b) \<in> \<int> \<and>
      fst (snd (sepia_pixel (r, g, b))) =
        min 255 (\<lfloor>exact_sepia_sum 349 686 168 (r, g, b)\<rfloor> - 1)) \<and>
   (snd (snd (sepia_pixel (r, g, b))) = min 255 \<lfloor>exact_sepia_sum 272 534 131 (r, g, b)\<rfloor> \<or>
      exact_sepia_sum 272 534 131 (r, g, b) \<in> \<int> \<and>
      snd (snd (sepia_pixel (r, g, b))) =
        min 255 (\<lfloor>exact_sepia_sum 272 534 131 (r, g, b)\<rfloor> - 1)) \<and>
   0 \<le> fst (sepia_pixel (r, g, b)) \<and> fst (sepia_pixel (r, g, b)) \<le> 255 \<and>
   0 \<le> fst (snd (sepia_pixel (r, g, b))) \<and> fst (snd (sepia_pixel (r, g, b))) \<le> 255 \<and>
   0 \<le> snd (snd (sepia_pixel (r, g, b))) \<and> snd (snd (sepia_pixel (r, g, b))) \<le> 255"
proof -
  note f = sepia_pixel_float_sums [of r g b]
  from f have eq: "sepia_pixel (r, g, b) =
     (min 255 \<lfloor>fadd (fadd (fmul (fl (393 / 1000)) (of_int (uint r)))
                            (fmul (fl (769 / 1000)) (of_int (uint g))))
                      (fmul (fl (189 / 1000)) (of_int (uint b)))\<rfloor>,
      min 255 \<lfloor>fadd (fadd (fmul (fl (349 / 1000)) (of_int (uint r)))
                            (fmul (fl (686 / 1000)) (of_int (uint g))))
                      (fmul (fl (168 / 1000)) (of_int (uint b)))\<rfloor>,
      min 255 \<lfloor>fadd (fadd (fmul (fl (272 / 1000)) (of_int (uint r)))
                            (fmul (fl (534 / 1000)) (of_int (uint g))))
                      (fmul (fl (131 / 1000)) (of_int (uint b)))\<rfloor>)"
    by (rule conjunct1)
  from f have rng: "0 \<le> fst (sepia_pixel (r, g, b)) \<and> fst (sepia_pixel (r, g, b)) \<le> 255 \<and>
   0 \<le> fst (snd (sepia_pixel (r, g, b))) \<and> fst (snd (sepia_pixel (r, g, b))) \<le> 255 \<and>
   0 \<le> snd (snd (sepia_pixel (r, g, b))) \<and> snd (snd (sepia_pixel (r, g, b))) \<le> 255"
    by (rule conjunct2)
  have red: "fst (sepia_pixel (r, g, b)) = min 255 \<lfloor>exact_sepia_sum 393 769 189 (r, g, b)\<rfloor> \<or>
      exact_sepia_sum 393 769 189 (r, g, b) \<in> \<int> \<and>
      fst (sepia_pixel (r, g, b)) = min 255 (\<lfloor>exact_sepia_sum 393 769 189 (r, g, b)\<rfloor> - 1)"
    unfolding eq fst_conv using sepia_channel_exact [of 393 769 189 r g b] by simp
  have green: "fst (snd (sepia_pixel (r, g, b))) =
        min 255 \<lfloor>exact_sepia_sum 349 686 168 (r, g, b)\<rfloor> \<or>
      exact_sepia_sum 349 686 168 (r, g, b) \<in> \<int> \<and>
      fst (snd (sepia_pixel (r, g, b))) =
        min 255 (\<lfloor>exact_sepia_sum 349 686 168 (r, g, b)\<rfloor> - 1)"
    unfolding eq fst_conv snd_conv using sepia_channel_exact [of 349 686 168 r g b] by simp
  have blue: "snd (snd (sepia_pixel (r, g, b))) =
        min 255 \<lfloor>exact_sepia_sum 272 534 131 (r, g, b)\<rfloor> \<or>
      exact_sepia_sum 272 534 131 (r, g, b) \<in> \<int> \<and>
      snd (snd (sepia_pixel (r, g, b))) =
        min 255 (\<lfloor>exact_sepia_sum 272 534 131 (r, g, b)\<rfloor> - 1)"
    unfolding eq snd_conv using sepia_channel_exact [of 272 534 131 r g b] by simp
  from red green blue rng show ?thesis by (intro conjI) simp_all
qed

section \<open>The keyword sentiment percentage\<close>

lemma keyword_count_zero:
  assumes "\<forall>text \<in> set feedbacks. \<forall>word \<in> set keywords. \<not> str_contains text word"
  shows "keyword_count feedbacks keywords = 0"
proof -
  have "filter (\<lambda>text. str_contains text word) feedbacks = []" if "word \<in> set keywords" for word
    using assms that by (auto simp: filter_empty_conv)
  then show ?thesis by (simp add: keyword_count_def)
qed

lemma fl_100: "fl 100 = 100"
  using fl_dyadic [of 100 0] by simp

text \<open>
  Claim C7. For every collection of feedback texts the scorer returns a value and never
  fails: with positive count \<open>pc\<close> and negative count \<open>nc\<close> it divides \<open>pc\<close> by
  \<open>pc + nc\<close> when that is positive (a float division, within \<open>2\<^sup>-\<^sup>5\<^sup>3\<close> of the
  exact fraction) and reports the quotient as a percentage between 0 and 100; when the
  denominator is 0, in particular when no text contains any tracked keyword, it reports 0
  and divides nothing.
\<close>

theorem positive_percent_fraction:
  fixes feedbacks :: "string list"
  defines "pc \<equiv> keyword_count feedbacks positive_keywords"
  defines "nc \<equiv> keyword_count feedbacks negative_keywords"
  shows "\<exists>p. positive_percent feedbacks = Inr p \<and>
           (pc + nc = 0 \<longrightarrow> p = 0) \<and>
           (0 < pc + nc \<longrightarrow>
              p = fmul (fdiv (of_nat pc) (of_nat (pc + nc))) 100 \<and>
              \<bar>fdiv (of_nat pc) (of_nat (pc + nc)) - of_nat pc / of_nat (pc + nc)\<bar> \<le> 2 powi (- 53) \<and>
              \<bar>p - 100 * (of_nat pc / of_nat (pc + nc))\<bar> \<le> 2 powi (- 45) \<and>
              0 \<le> p \<and> p \<le> 100) \<and>
           ((\<forall>text \<in> set feedbacks. \<forall>word \<in> set (positive_keywords @ negative_keywords).
               \<not> str_contains text word) \<longrightarrow> pc + nc = 0 \<and> p = 0)"
proof (cases "0 < pc + nc")
  case False
  then have z: "pc + nc = 0" by simp
  then have "positive_percent feedbacks = Inr 0"
    by (simp add: positive_percent_def pc_def nc_def)
  with z show ?thesis by simp
next
  case True
  define q :: rat where "q = of_nat pc / of_nat (pc + nc)"
  have tpos: "(0::rat) < of_nat (pc + nc)" using True by (simp only: of_nat_0_less_iff)
  have q0: "0 \<le> q" unfolding q_def by simp
  have "(of_nat pc :: rat) \<le> of_nat (pc + nc)" by simp
  then have q1: "q \<le> 1" unfolding q_def using tpos by (simp add: divide_le_eq)
  define f where "f = fdiv (of_nat pc) (of_nat (pc + nc))"
  have f: "f = fl q" by (simp add: f_def fdiv_def q_def)
  have f0: "0 \<le> f" unfolding f using q0 by (rule fl_nonneg)
  have f1: "f \<le> 1" unfolding f using q0 q1 fl_1 by (rule fl_le)
  have "q \<le> 2 powi 0" using q1 by simp
  from fl_abs_error [OF q0 this] have fe: "\<bar>f - q\<bar> \<le> 2 powi (- 53)" by (simp add: f)
  define p where "p = fmul f 100"
  have m0: "0 \<le> f * 100" using f0 by simp
  have m1: "f * 100 \<le> 100" using f1 by simp
  then have "f * 100 \<le> 2 powi 7" by simp
  from fl_abs_error [OF m0 this] have pe: "\<bar>p - f * 100\<bar> \<le> 2 powi (- 46)"
    by (simp add: p_def fmul_def)
  have "\<bar>f * 100 - 100 * q\<bar> = \<bar>(f - q) * 100\<bar>" by (simp add: algebra_simps)
  also have "\<dots> = \<bar>f - q\<bar> * \<bar>100\<bar>" by (rule abs_mult)
  also have "\<dots> = \<bar>f - q\<bar> * 100" by simp
  also have "\<dots> \<le> 2 powi (- 53) * 100" using fe by (intro mult_right_mono) simp_all
  also have "\<dots> \<le> 2 powi (- 46)" by simp
  finally have "\<bar>f * 100 - 100 * q\<bar> \<le> 2 powi (- 46)" .
  with pe have "\<bar>p - 100 * q\<bar> \<le> 2 powi (- 46) + 2 powi (- 46)" by linarith
  also have "\<dots> = 2 powi (- 45)" by simp
  finally have pq: "\<bar>p - 100 * q\<bar> \<le> 2 powi (- 45)" .
  have p0: "0 \<le> p" unfolding p_def using f0 by (intro fmul_nonneg) simp_all
  have p1: "p \<le> 100" unfolding p_def fmul_def using m0 m1 fl_100 by (rule fl_le)
  have r: "positive_percent feedbacks = Inr p"
    using True tpos
    by (simp add: positive_percent_def Let_def py_truediv_def p_def f_def
        pc_def [symmetric] nc_def [symmetric])
  have nz: "\<not> (\<forall>text \<in> set feedbacks. \<forall>word \<in> set (positive_keywords @ negative_keywords).
               \<not> str_contains text word)"
  proof
    assume a: "\<forall>text \<in> set feedbacks. \<forall>word \<in> set (positive_keywords @ negative_keywords).
               \<not> str_contains text word"
    then have "pc = 0" "nc = 0"
      unfolding pc_def nc_def by (auto intro!: keyword_count_zero)
    with True show False by simp
  qed
  from r True fe pq p0 p1 nz show ?thesis
    by (auto simp: p_def f_def q_def)
qed

theorem positive_percent_fraction_witness:
  "filter (str_contains ''Average experience at the IoT event. Nothing special.'')
     (positive_keywords @ negative_keywords) = [] \<and>
   positive_percent [''Average experience at the IoT event. Nothing special.''] = Inr 0 \<and>
   0 < keyword_count [''I loved it, great!'', ''Poor and bad'', ''fine''] positive_keywords +
       keyword_count [''I loved it, great!'', ''Poor and bad'', ''fine''] negative_keywords \<and>
   positive_percent [''I loved it, great!'', ''Poor and bad'', ''fine''] = Inr 50"
proof -
  have h0: "filter (str_contains ''Average experience at the IoT event. Nothing special.'')
     (positive_keywords @ negative_keywords) = []"
    by code_simp
  then have h: "\<forall>text \<in> set [''Average experience at the IoT event. Nothing special.''].
      \<forall>word \<in> set (positive_keywords @ negative_keywords). \<not> str_contains text word"
    unfolding filter_empty_conv by simp
  from positive_percent_fraction [of "[''Average experience at the IoT event. Nothing special.'']"] h
  have a: "positive_percent [''Average experience at the IoT event. Nothing special.''] = Inr 0"
    by auto
  have pc: "keyword_count [''I loved it, great!'', ''Poor and bad'', ''fine''] positive_keywords = 2"
    by code_simp
  have nc: "keyword_count [''I loved it, great!'', ''Poor and bad'', ''fine''] negative_keywords = 2"
    by code_simp
  have f: "fl (1 / 2) = 1 / 2" "fl 50 = 50"
    using fl_dyadic [of 1 1] fl_dyadic [of 50 0] by simp_all
  from positive_percent_fraction [of "[''I loved it, great!'', ''Poor and bad'', ''fine'']"]
  have b: "positive_percent [''I loved it, great!'', ''Poor and bad'', ''fine''] = Inr 50"
    unfolding pc nc by (auto simp: fdiv_def fmul_def f)
  from h0 a b show ?thesis by (simp add: pc nc)
qed

section \<open>The word frequencies\<close>

lemma match_word_alpha:
  assumes "match_word prev s = Some k"
  shows "3 \<le> k \<and> k \<le> 15 \<and> k \<le> length s \<and> (\<forall>c \<in> set (take k s). is_alpha c)"
proof -
  define m where "m = length (takeWhile is_alpha (take 15 s))"
  from assms have "find (\<lambda>k. word_boundary (char_at s (k - 1)) (char_at s k))
      (rev [3..<m + 1]) = Some k"
    by (simp add: match_word_def Let_def m_def split: if_splits)
  then have "k \<in> set (rev [3..<m + 1])" by (metis find_Some_iff nth_mem)
  then have k: "3 \<le> k" "k \<le> m" by auto
  have m15: "m \<le> 15"
    unfolding m_def by (rule order_trans [OF length_takeWhile_le]) simp
  have ms: "m \<le> length s"
    unfolding m_def by (rule order_trans [OF length_takeWhile_le]) simp
  have "take k (takeWhile is_alpha (take 15 s)) = take k (take 15 s)"
    using k(2) unfolding m_def
    by (metis append_eq_conv_conj takeWhile_dropWhile_id take_all_iff
        length_take min.absorb2 take_take)
  then have "take k s = take k (takeWhile is_alpha (take 15 s))"
    using k(2) m15 by (simp add: min_def)
  then have "set (take k s) \<subseteq> set (takeWhile is_alpha (take 15 s))"
    by (metis set_take_subset)
  then have "\<forall>c \<in> set (take k s). is_alpha c"
    by (auto dest: set_takeWhileD)
  with k m15 ms show ?thesis by simp
qed

lemma findall_words_tokens:
  "w \<in> set (findall_words prev s) \<Longrightarrow>
     3 \<le> length w \<and> length w \<le> 15 \<and> (\<forall>c \<in> set w. is_alpha c \<and> c \<in> set s)"
proof (induction prev s rule: findall_words.induct)
  case (1 prev)
  then show ?case by (simp add: findall_words.simps)
next
  case (2 prev c cs)
  show ?case
  proof (cases "match_word prev (c # cs)")
    case None
    with "2.prems" have "w \<in> set (findall_words (Some c) cs)"
      by (simp add: findall_words.simps)
    from "2.IH"(1) [OF None this] show ?thesis by auto
  next
    case (Some k)
    note mk = match_word_alpha [OF Some]
    from "2.prems" Some have "w = take k (c # cs) \<or>
        w \<in> set (findall_words (char_at (c # cs) (k - 1)) (drop k (c # cs)))"
      by (simp add: findall_words.simps)
    then show ?thesis
    proof
      assume w: "w = take k (c # cs)"
      have "set (take k (c # cs)) \<subseteq> set (c # cs)" by (rule set_take_subset)
      with mk w show ?thesis by (auto simp: min_def)
    next
      assume "w \<in> set (findall_words (char_at (c # cs) (k - 1)) (drop k (c # cs)))"
      from "2.IH"(2) [OF Some this]
      have "3 \<le> length w \<and> length w \<le> 15 \<and>
          (\<forall>x \<in> set w. is_alpha x \<and> x \<in> set (drop k (c # cs)))" .
      moreover have "set (drop k (c # cs)) \<subseteq> set (c # cs)" by (rule set_drop_subset)
      ultimately show ?thesis by blast
    qed
  qed
qed

lemma lower_char_not_upper: "\<not> is_upper (lower_char c)"
proof (cases "is_upper c")
  case True
  then have "(of_char c :: nat) + 32 < 256" by (simp add: is_upper_def)
  then have "(of_char (char_of ((of_char c :: nat) + 32)) :: nat) = of_char c + 32"
    by simp
  with True show ?thesis by (simp add: lower_char_def is_upper_def)
next
  case False
  then show ?thesis by (simp add: lower_char_def)
qed

lemma alpha_not_upper_lower: "is_alpha c \<Longrightarrow> \<not> is_upper c \<Longrightarrow> is_lower c"
  by (auto simp: is_alpha_def is_lower_def)

lemma feedback_words_tokens:
  assumes "w \<in> set (feedback_words text)"
  shows "3 \<le> length w \<and> length w \<le> 15 \<and> (\<forall>c \<in> set w. is_lower c) \<and> w \<notin> set stopwords"
proof -
  from assms have w: "w \<in> set (findall_words None (py_lower text))" and s: "w \<notin> set stopwords"
    by (simp_all add: feedback_words_def)
  note t = findall_words_tokens [OF w]
  have "is_lower c" if "c \<in> set w" for c
  proof -
    from t that have "is_alpha c" "c \<in> set (py_lower text)" by auto
    then show ?thesis
      by (auto simp: py_lower_def lower_char_not_upper intro: alpha_not_upper_lower)
  qed
  with t s show ?thesis by simp
qed
















end
